theory Spec2Isabelle
  imports Complex_Main
begin

section \<open>Knowledge graph of script.js: data model\<close>

text \<open>
  The source file holds three revisions of the same script, separated by a marker line.
  The first revision (lines 1 to 1148) resolves cross-references automatically by scanning
  item text; the third revision (from line 1965) resolves them from author-specified
  target lists. Definitions below that exist in both revisions keep the source's name for
  the third revision and carry the suffix \<open>_auto\<close> for the first one.

  Strings are lists of characters over the ASCII alphabet. Numbers are real numbers: the
  rounding of the source's floating-point arithmetic is not modelled.
\<close>

subsection \<open>Strings\<close>

definition isUpper :: "char \<Rightarrow> bool" where
  "isUpper c = (c \<in> set ''ABCDEFGHIJKLMNOPQRSTUVWXYZ'')"

definition isLower :: "char \<Rightarrow> bool" where
  "isLower c = (c \<in> set ''abcdefghijklmnopqrstuvwxyz'')"

definition isDigit :: "char \<Rightarrow> bool" where
  "isDigit c = (c \<in> set ''0123456789'')"

text \<open>\<open>c.toLowerCase()\<close> on one ASCII character.\<close>

definition lowerChar :: "char \<Rightarrow> char" where
  "lowerChar c =
     (case map_of (zip ''ABCDEFGHIJKLMNOPQRSTUVWXYZ'' ''abcdefghijklmnopqrstuvwxyz'') c of
        Some l \<Rightarrow> l
      | None \<Rightarrow> c)"

definition toLowerCase :: "string \<Rightarrow> string" where
  "toLowerCase s = map lowerChar s"

text \<open>White space removed by \<open>String.prototype.trim\<close>: tab, line feed, vertical tab,
  form feed, carriage return and space.\<close>

definition isSpace :: "char \<Rightarrow> bool" where
  "isSpace c = (c \<in> {CHR 0x09, CHR 0x0A, CHR 0x0B, CHR 0x0C, CHR 0x0D, CHR '' ''})"

definition trim :: "string \<Rightarrow> string" where
  "trim s = rev (dropWhile isSpace (rev (dropWhile isSpace s)))"

text \<open>\<open>String(n)\<close> for a non-negative integer: its decimal digits.\<close>

definition digitChar :: "nat \<Rightarrow> char" where
  "digitChar d = ''0123456789'' ! d"

fun numberToString :: "nat \<Rightarrow> string" where
  "numberToString n =
     (if n < 10 then [digitChar n]
      else numberToString (n div 10) @ [digitChar (n mod 10)])"

declare numberToString.simps [simp del]

text \<open>A JavaScript string is truthy when it is not empty; \<open>a || b\<close> on a possibly
  absent string \<open>a\<close>.\<close>

definition orElse :: "string option \<Rightarrow> string \<Rightarrow> string" where
  "orElse a b = (case a of None \<Rightarrow> b | Some s \<Rightarrow> if s = [] then b else s)"

text \<open>\<open>text.replace(/[^a-z0-9]+/g, '-')\<close>: every maximal run of characters outside
  \<open>a-z0-9\<close> becomes one hyphen.\<close>

definition isSlugChar :: "char \<Rightarrow> bool" where
  "isSlugChar c = (isLower c \<or> isDigit c)"

fun replaceRunsFrom :: "bool \<Rightarrow> string \<Rightarrow> string" where
  "replaceRunsFrom inRun [] = []"
| "replaceRunsFrom inRun (c # cs) =
     (if isSlugChar c then c # replaceRunsFrom False cs
      else if inRun then replaceRunsFrom True cs
      else CHR ''-'' # replaceRunsFrom True cs)"

definition replaceRuns :: "string \<Rightarrow> string" where
  "replaceRuns s = replaceRunsFrom False s"

text \<open>\<open>.replace(/^-+|-+$/g, '')\<close>: leading and trailing hyphens are removed.\<close>

definition stripHyphens :: "string \<Rightarrow> string" where
  "stripHyphens s =
     rev (dropWhile (\<lambda>c. c = CHR ''-'') (rev (dropWhile (\<lambda>c. c = CHR ''-'') s)))"

definition slugify :: "string \<Rightarrow> string" where
  "slugify text = orElse (Some (stripHyphens (replaceRuns (toLowerCase text)))) ''node''"

text \<open>\<open>s.split(',')\<close>.\<close>

fun splitComma :: "string \<Rightarrow> string list" where
  "splitComma [] = [[]]"
| "splitComma (c # cs) =
     (if c = CHR '','' then [] # splitComma cs
      else (case splitComma cs of
              [] \<Rightarrow> [[c]]
            | w # ws \<Rightarrow> (c # w) # ws))"

text \<open>\<open>s.replace(p, '')\<close> for a string pattern: the first occurrence of \<open>p\<close> is removed.\<close>

fun removeFirst :: "string \<Rightarrow> string \<Rightarrow> string" where
  "removeFirst p [] = []"
| "removeFirst p (c # cs) =
     (if take (length p) (c # cs) = p then drop (length p) (c # cs)
      else c # removeFirst p cs)"

subsection \<open>Page content\<close>

text \<open>
  A content block (\<open>itemEl\<close>) as far as \<open>collectItemData\<close> reads it: its \<open>data-graph-*\<close>
  attributes, the text of the first descendant matching the title selector and the subtitle
  selector (\<open>None\<close> when \<open>querySelector\<close> finds nothing), and its whole text content.
\<close>

record item_el =
  graphId :: "string option"
  graphLabel :: "string option"
  graphSubtitle :: "string option"
  graphRef :: "string option"
  graphLinksTo :: "string option"
  titleText :: "string option"
  subtitleText :: "string option"
  textContent :: string

text \<open>A \<open>.section-block\<close>: the text of its \<open>.section-title\<close>, if any, and the content
  blocks \<open>block.querySelectorAll(config.itemSelector)\<close> finds, in document order.\<close>

record section_block =
  sectionTitle :: "string option"
  blockItems :: "item_el list"

text \<open>The page: \<open>document.querySelector('.section-block[data-section="key"]')\<close> for each
  key, \<open>None\<close> when the block is missing.\<close>

type_synonym page = "string \<Rightarrow> section_block option"

text \<open>\<open>itemEl.dataset.graphId = id\<close> on the content block \<open>itemEl\<close>, which is item \<open>i\<close>
  of the block of category \<open>k\<close>.\<close>

definition setGraphId :: "page \<Rightarrow> string \<Rightarrow> nat \<Rightarrow> item_el \<Rightarrow> string \<Rightarrow> page" where
  "setGraphId pg k i itemEl ident =
     (case pg k of
        None \<Rightarrow> pg
      | Some b \<Rightarrow>
          pg(k := Some (b\<lparr>blockItems := (blockItems b)[i := itemEl\<lparr>graphId := Some ident\<rparr>]\<rparr>)))"

text \<open>The container \<open>document.getElementById('graph-container')\<close>, when present.\<close>

record container =
  offsetWidth :: real
  offsetHeight :: real

subsection \<open>Nodes and links\<close>

datatype node_type = Center | Category | Item

datatype link_type = Spine | Branch | Reference

text \<open>
  A node object. \<open>category\<close> is \<open>None\<close> for \<open>null\<close>; \<open>node_fx\<close> and \<open>node_fy\<close> are \<open>None\<close>
  when the node is not pinned; \<open>hidden\<close> is \<open>False\<close> where the source leaves it undefined.
  \<open>referenceId\<close> and \<open>fullText\<close> are set by the first revision, \<open>linksTo\<close> by the third.
  Colour, shape and size are presentation only and left out.
\<close>

record node =
  node_id :: string
  label :: string
  subtitle :: string
  node_type :: node_type
  category :: "string option"
  node_x :: real
  node_y :: real
  node_fx :: "real option"
  node_fy :: "real option"
  hidden :: bool
  referenceId :: string
  fullText :: string
  linksTo :: "string list"

text \<open>
  An end of a link is an identity string when the builder returns it. The force simulation
  of the d3 library replaces it by the node object it resolves to; \<open>Obj i\<close> stands for the
  node object at index \<open>i\<close> of \<open>graphData.nodes\<close>.
\<close>

datatype endpoint = Ident string | Obj nat

record link =
  source :: endpoint
  target :: endpoint
  link_type :: link_type

record graph =
  nodes :: "node list"
  links :: "link list"

subsection \<open>A \<open>Map\<close> with insertion order\<close>

fun mapSet :: "'k \<Rightarrow> 'v \<Rightarrow> ('k \<times> 'v) list \<Rightarrow> ('k \<times> 'v) list" where
  "mapSet k v [] = [(k, v)]"
| "mapSet k v ((k', v') # m) = (if k' = k then (k, v) # m else (k', v') # mapSet k v m)"

definition mapGet :: "('k \<times> 'v) list \<Rightarrow> 'k \<Rightarrow> 'v option" where
  "mapGet m k = map_of m k"

definition mapKeys :: "('k \<times> 'v) list \<Rightarrow> 'k list" where
  "mapKeys m = map fst m"

section \<open>Graph Builder\<close>

subsection \<open>Configuration\<close>

text \<open>The keys of \<open>sectionConfig\<close>, in the order of \<open>Object.entries\<close> (lines 10 and 2330).\<close>

definition sectionConfig_auto :: "string list" where
  "sectionConfig_auto = [''work'', ''opensource'', ''talks'', ''contact'']"

definition sectionConfig :: "string list" where
  "sectionConfig = [''work'', ''projects'', ''media'', ''contact'']"

definition CATEGORY_RADIUS :: real where
  "CATEGORY_RADIUS = 140"

subsection \<open>Content Extractor\<close>

text \<open>\<open>extractReferenceId\<close> (line 90): the category prefix and a trailing \<open>-digits\<close> are
  removed, the rest is put in lower case.\<close>

definition stripCategoryPrefix :: "string \<Rightarrow> string" where
  "stripCategoryPrefix s =
     (case filter (\<lambda>k. take (length k + 1) s = k @ ''-'') sectionConfig_auto of
        [] \<Rightarrow> s
      | k # _ \<Rightarrow> drop (length k + 1) s)"

definition stripIndexSuffix :: "string \<Rightarrow> string" where
  "stripIndexSuffix s =
     (let ds = takeWhile isDigit (rev s); r = dropWhile isDigit (rev s)
      in if ds \<noteq> [] \<and> r \<noteq> [] \<and> hd r = CHR ''-'' then rev (tl r) else s)"

definition extractReferenceId :: "string \<Rightarrow> string" where
  "extractReferenceId idOrLabel = toLowerCase (stripIndexSuffix (stripCategoryPrefix idOrLabel))"

definition itemLabel :: "item_el \<Rightarrow> string" where
  "itemLabel itemEl =
     orElse (graphLabel itemEl)
       (orElse (map_option trim (titleText itemEl)) (trim (textContent itemEl)))"

definition itemSubtitle :: "item_el \<Rightarrow> string" where
  "itemSubtitle itemEl =
     orElse (graphSubtitle itemEl) (orElse (map_option trim (subtitleText itemEl)) [])"

definition itemIdentity :: "string \<Rightarrow> item_el \<Rightarrow> nat \<Rightarrow> string" where
  "itemIdentity sectionKey itemEl fallbackIdx =
     orElse (graphId itemEl)
       (sectionKey @ ''-'' @ slugify (itemLabel itemEl) @ ''-'' @ numberToString fallbackIdx)"

text \<open>\<open>collectItemData\<close> of the first revision (line 61). The position, the pin and the
  hidden flag are filled in by the caller; the write to \<open>itemEl.dataset.graphId\<close> is done by
  the caller's \<open>setGraphId\<close>.\<close>

definition collectItemData_auto :: "string \<Rightarrow> item_el \<Rightarrow> nat \<Rightarrow> node" where
  "collectItemData_auto sectionKey itemEl fallbackIdx =
     (let lbl = itemLabel itemEl;
          sub = itemSubtitle itemEl;
          ident = itemIdentity sectionKey itemEl fallbackIdx
      in \<lparr>node_id = ident, label = lbl, subtitle = sub, node_type = Item,
          category = Some sectionKey, node_x = 0, node_y = 0,
          node_fx = None, node_fy = None, hidden = False,
          referenceId = orElse (graphRef itemEl) (extractReferenceId ident),
          fullText = toLowerCase (lbl @ '' '' @ sub @ '' '' @ textContent itemEl),
          linksTo = []\<rparr>)"

text \<open>\<open>collectItemData\<close> of the third revision (line 2404).\<close>

definition collectItemData :: "string \<Rightarrow> item_el \<Rightarrow> nat \<Rightarrow> node" where
  "collectItemData sectionKey itemEl fallbackIdx =
     (let lbl = itemLabel itemEl;
          sub = itemSubtitle itemEl;
          ident = itemIdentity sectionKey itemEl fallbackIdx
      in \<lparr>node_id = ident, label = lbl, subtitle = sub, node_type = Item,
          category = Some sectionKey, node_x = 0, node_y = 0,
          node_fx = None, node_fy = None, hidden = False,
          referenceId = [], fullText = [],
          linksTo = (case graphLinksTo itemEl of
                       None \<Rightarrow> []
                     | Some s \<Rightarrow> if s = [] then [] else map trim (splitComma s))\<rparr>)"

subsection \<open>Center, category and item nodes\<close>

text \<open>
  The state of the loops of \<open>buildGraphData\<close>: the arrays \<open>nodes\<close> and \<open>links\<close>, the map
  \<open>nodeIndex\<close>, the page (whose content blocks receive their identity) and the number of
  calls of \<open>Math.random\<close> made so far.
\<close>

record build_state =
  b_nodes :: "node list"
  b_links :: "link list"
  b_index :: "(string \<times> node) list"
  b_page :: page
  b_rand :: nat

text \<open>The two revisions differ in how an item node enters \<open>nodeIndex\<close>: under its
  \<open>referenceId\<close> when that is not empty (line 270), or under its identity (line 2611).\<close>

definition indexNode_auto :: "node \<Rightarrow> (string \<times> node) list \<Rightarrow> (string \<times> node) list" where
  "indexNode_auto n m = (if referenceId n \<noteq> [] then mapSet (referenceId n) n m else m)"

definition indexNode :: "node \<Rightarrow> (string \<times> node) list \<Rightarrow> (string \<times> node) list" where
  "indexNode n m = mapSet (node_id n) n m"

text \<open>The body of \<open>items.forEach\<close> (lines 254 to 281 and 2597 to 2619). \<open>rnd i\<close> is the
  result of the \<open>i\<close>-th call of \<open>Math.random\<close>.\<close>

definition itemStep ::
  "(string \<Rightarrow> item_el \<Rightarrow> nat \<Rightarrow> node) \<Rightarrow> (node \<Rightarrow> (string \<times> node) list \<Rightarrow> (string \<times> node) list) \<Rightarrow>
   (nat \<Rightarrow> real) \<Rightarrow> string \<Rightarrow> real \<Rightarrow> real \<Rightarrow> nat \<times> item_el \<Rightarrow> build_state \<Rightarrow> build_state" where
  "itemStep collect addIndex rnd catKey cx cy ie st =
     (let itemIdx = fst ie;
          n0 = collect catKey (snd ie) itemIdx;
          spread = 60;
          itemX = cx + (rnd (b_rand st) - 1 / 2) * spread;
          itemY = cy + (rnd (b_rand st + 1) - 1 / 2) * spread;
          n = n0\<lparr>node_x := itemX, node_y := itemY, hidden := True\<rparr>
      in st\<lparr>b_nodes := b_nodes st @ [n],
            b_index := addIndex n (b_index st),
            b_links := b_links st @
               [\<lparr>source = Ident (''cat-'' @ catKey), target = Ident (node_id n),
                 link_type = Branch\<rparr>],
            b_page := setGraphId (b_page st) catKey itemIdx (snd ie) (node_id n),
            b_rand := b_rand st + 2\<rparr>)"

text \<open>The body of \<open>categories.forEach\<close> (lines 217 to 282 and 2562 to 2620); \<open>ncat\<close> is
  \<open>categories.length\<close>.\<close>

definition categoryStep ::
  "(string \<Rightarrow> item_el \<Rightarrow> nat \<Rightarrow> node) \<Rightarrow> (node \<Rightarrow> (string \<times> node) list \<Rightarrow> (string \<times> node) list) \<Rightarrow>
   (nat \<Rightarrow> real) \<Rightarrow> real \<Rightarrow> real \<Rightarrow> nat \<Rightarrow> nat \<times> string \<Rightarrow> build_state \<Rightarrow> build_state" where
  "categoryStep collect addIndex rnd centerX centerY ncat ic st =
     (let idx = fst ic; catKey = snd ic
      in case b_page st catKey of
           None \<Rightarrow> st
         | Some block \<Rightarrow>
             (let lbl = orElse (map_option trim (sectionTitle block)) catKey;
                  angle = real idx * ((pi * 2) / real ncat) - pi / 2;
                  cx = centerX + cos angle * CATEGORY_RADIUS;
                  cy = centerY + sin angle * CATEGORY_RADIUS;
                  st1 = st\<lparr>b_nodes := b_nodes st @
                            [\<lparr>node_id = ''cat-'' @ catKey, label = lbl, subtitle = [],
                              node_type = Category, category = Some catKey,
                              node_x = cx, node_y = cy, node_fx = None, node_fy = None,
                              hidden = False, referenceId = [], fullText = [], linksTo = []\<rparr>],
                          b_links := b_links st @
                            [\<lparr>source = Ident ''center'', target = Ident (''cat-'' @ catKey),
                              link_type = Spine\<rparr>]\<rparr>
              in fold (itemStep collect addIndex rnd catKey cx cy)
                      (enumerate 0 (blockItems block)) st1))"

text \<open>Lines 187 to 282 and 2532 to 2620: the center node, then the categories in
  configuration order. Without a container the center is at (300, 300).\<close>

definition centerNode :: "real \<Rightarrow> real \<Rightarrow> node" where
  "centerNode centerX centerY =
     \<lparr>node_id = ''center'', label = ''me'', subtitle = [], node_type = Center,
      category = None, node_x = centerX, node_y = centerY,
      node_fx = Some centerX, node_fy = Some centerY, hidden = False,
      referenceId = [], fullText = [], linksTo = []\<rparr>"

definition halfWidth :: "container option \<Rightarrow> real" where
  "halfWidth c = (case c of Some d \<Rightarrow> offsetWidth d / 2 | None \<Rightarrow> 300)"

definition halfHeight :: "container option \<Rightarrow> real" where
  "halfHeight c = (case c of Some d \<Rightarrow> offsetHeight d / 2 | None \<Rightarrow> 300)"

definition buildHierarchy ::
  "(string \<Rightarrow> item_el \<Rightarrow> nat \<Rightarrow> node) \<Rightarrow> (node \<Rightarrow> (string \<times> node) list \<Rightarrow> (string \<times> node) list) \<Rightarrow>
   string list \<Rightarrow> (nat \<Rightarrow> real) \<Rightarrow> container option \<Rightarrow> page \<Rightarrow> build_state" where
  "buildHierarchy collect addIndex cfg rnd cont pg =
     (let centerX = halfWidth cont; centerY = halfHeight cont
      in fold (categoryStep collect addIndex rnd centerX centerY (length cfg))
              (enumerate 0 cfg)
              \<lparr>b_nodes = [centerNode centerX centerY], b_links = [], b_index = [],
               b_page = pg, b_rand = 0\<rparr>)"

subsection \<open>Reference links\<close>

text \<open>The elements of a \<open>Set\<close> filled from a list, in insertion order.\<close>

definition insertionOrder :: "'a list \<Rightarrow> 'a list" where
  "insertionOrder xs = fold (\<lambda>x acc. if x \<in> set acc then acc else acc @ [x]) xs []"

text \<open>
  \<open>findReferences\<close> (line 99). \<open>rx refId text\<close> is the result of
  \<open>new RegExp('\\b' + refId + '\\b', 'i').test(text)\<close>, a function of the JavaScript
  runtime.
\<close>

definition findReferences :: "(string \<Rightarrow> string \<Rightarrow> bool) \<Rightarrow> string \<Rightarrow> string list \<Rightarrow> string list" where
  "findReferences rx text allReferenceIds =
     (let textLower = toLowerCase text
      in insertionOrder
           (filter (\<lambda>refId. \<not> length refId < 3 \<and> rx refId textLower) allReferenceIds))"

text \<open>Lines 288 to 312: the links one node contributes, then all of them.\<close>

definition referenceLinksOf_auto ::
  "(string \<Rightarrow> string \<Rightarrow> bool) \<Rightarrow> (string \<times> node) list \<Rightarrow> node \<Rightarrow> link list" where
  "referenceLinksOf_auto rx index n =
     (if node_type n \<noteq> Item \<or> fullText n = [] then []
      else concat (map (\<lambda>refId.
             case mapGet index refId of
               None \<Rightarrow> []
             | Some targetNode \<Rightarrow>
                 if node_id targetNode \<noteq> node_id n \<and> category targetNode \<noteq> category n
                 then [\<lparr>source = Ident (node_id n), target = Ident (node_id targetNode),
                        link_type = Reference\<rparr>]
                 else [])
             (findReferences rx (fullText n) (mapKeys index))))"

definition buildGraphData_auto ::
  "(string \<Rightarrow> string \<Rightarrow> bool) \<Rightarrow> (nat \<Rightarrow> real) \<Rightarrow> container option \<Rightarrow> page \<Rightarrow> graph \<times> page" where
  "buildGraphData_auto rx rnd cont pg =
     (let st = buildHierarchy collectItemData_auto indexNode_auto sectionConfig_auto rnd cont pg
      in (\<lparr>nodes = b_nodes st,
           links = b_links st @ concat (map (referenceLinksOf_auto rx (b_index st)) (b_nodes st))\<rparr>,
          b_page st))"

text \<open>Lines 2629 to 2646.\<close>

definition referenceLinksOf :: "(string \<times> node) list \<Rightarrow> node \<Rightarrow> link list" where
  "referenceLinksOf index n =
     (if node_type n \<noteq> Item \<or> linksTo n = [] then []
      else concat (map (\<lambda>targetId.
             case mapGet index targetId of
               None \<Rightarrow> []
             | Some targetNode \<Rightarrow>
                 if node_id targetNode \<noteq> node_id n
                 then [\<lparr>source = Ident (node_id n), target = Ident (node_id targetNode),
                        link_type = Reference\<rparr>]
                 else [])
             (linksTo n)))"

definition buildGraphData :: "(nat \<Rightarrow> real) \<Rightarrow> container option \<Rightarrow> page \<Rightarrow> graph \<times> page" where
  "buildGraphData rnd cont pg =
     (let st = buildHierarchy collectItemData indexNode sectionConfig rnd cont pg
      in (\<lparr>nodes = b_nodes st,
           links = b_links st @ concat (map (referenceLinksOf (b_index st)) (b_nodes st))\<rparr>,
          b_page st))"

section \<open>Runtime state\<close>

text \<open>
  The state the handlers share once \<open>initGraph\<close> has built and rendered the graph, so that
  \<open>graphData\<close> and \<open>simulation\<close> are set: the nodes, the rendered links with the
  \<open>stroke-opacity\<close> attribute of their elements, \<open>activeSubgraph\<close>, the drag
  bookkeeping of \<open>renderGraph\<close>, the transform last handed to the zoom behaviour, and what
  \<open>document.getElementById('graph-container')\<close> returns at present. Transitions are taken
  at their end value. The constants are those of the third revision; the first revision uses
  0.3 where the third uses 0.4 and has no \<open>wasDragged\<close> flag.
\<close>

datatype error = TypeError

text \<open>\<open>activeSubgraph\<close>: \<open>null\<close>, a category key, or an array of categories.\<close>

datatype subgraph = Closed | Single string | Multi "string option list"

text \<open>A zoom transform \<open>{x, y, k}\<close>; \<open>NotFinite\<close> when its numbers come from the infinite
  bounds of an empty selection.\<close>

datatype transform = Transform real real real | NotFinite

record link_el =
  datum :: link
  strokeOpacity :: real

record view =
  v_nodes :: "node list"
  v_links :: "link_el list"
  activeSubgraph :: subgraph
  wasDragged :: bool
  dragStartPos :: "(real \<times> real) option"
  zoomTransform :: transform
  v_container :: "container option"

text \<open>Truthiness of \<open>activeSubgraph\<close> and of a category key.\<close>

definition isOpen :: "subgraph \<Rightarrow> bool" where
  "isOpen a = (case a of Closed \<Rightarrow> False | Single k \<Rightarrow> k \<noteq> [] | Multi _ \<Rightarrow> True)"

definition truthyKey :: "string option \<Rightarrow> bool" where
  "truthyKey k = (case k of None \<Rightarrow> False | Some s \<Rightarrow> s \<noteq> [])"

text \<open>
  The node and the identity of an end of a link:
  \<open>typeof e === 'object' ? e : graphData.nodes.find(n => n.id === e)\<close> and
  \<open>typeof e === 'object' ? e.id : e\<close>. An object end denotes a node of the array; for an
  index outside the array, which no rendered graph has, the model has no node.
\<close>

definition endNode :: "node list \<Rightarrow> endpoint \<Rightarrow> node option" where
  "endNode ns e =
     (case e of
        Obj i \<Rightarrow> if i < length ns then Some (ns ! i) else None
      | Ident s \<Rightarrow> find (\<lambda>n. node_id n = s) ns)"

definition endId :: "node list \<Rightarrow> endpoint \<Rightarrow> string option" where
  "endId ns e =
     (case e of
        Obj i \<Rightarrow> if i < length ns then Some (node_id (ns ! i)) else None
      | Ident s \<Rightarrow> Some s)"

subsection \<open>Rendering\<close>

text \<open>
  \<open>renderGraph\<close> (line 2818) as far as the state goes: every link gets an element whose
  opacity is 0 for branch and reference links and 0.4 for spine links. \<open>bind\<close> stands for
  the initialisation of \<open>d3.forceLink\<close>, which replaces the ends of the links by node
  objects; the library is not part of the source, so it is a parameter.
\<close>

definition renderGraph ::
  "(node list \<Rightarrow> endpoint \<Rightarrow> endpoint) \<Rightarrow> container option \<Rightarrow> graph \<Rightarrow> view" where
  "renderGraph bind cont g =
     \<lparr>v_nodes = nodes g,
      v_links = map (\<lambda>l. \<lparr>datum = l\<lparr>source := bind (nodes g) (source l),
                                       target := bind (nodes g) (target l)\<rparr>,
                            strokeOpacity = (case link_type l of
                                               Branch \<Rightarrow> 0
                                             | Reference \<Rightarrow> 0
                                             | Spine \<Rightarrow> 4 / 10)\<rparr>) (links g),
      activeSubgraph = Closed, wasDragged = False, dragStartPos = None,
      zoomTransform = Transform 0 0 1, v_container = cont\<rparr>"

section \<open>Viewport Controller\<close>

text \<open>\<open>Math.min\<close> and \<open>Math.max\<close> folded over the selection from \<open>Infinity\<close> and
  \<open>-Infinity\<close>, which \<open>None\<close> stands for.\<close>

definition lowest :: "real list \<Rightarrow> real option" where
  "lowest vs = fold (\<lambda>v acc. Some (case acc of None \<Rightarrow> v | Some m \<Rightarrow> min m v)) vs None"

definition highest :: "real list \<Rightarrow> real option" where
  "highest vs = fold (\<lambda>v acc. Some (case acc of None \<Rightarrow> v | Some m \<Rightarrow> max m v)) vs None"

text \<open>The body shared by \<open>zoomToVisibleNodes\<close> (line 3325 on) and \<open>zoomToFit\<close> (line 3370
  on): bounding box, padding, scale and translation.\<close>

definition frame :: "container \<Rightarrow> node list \<Rightarrow> real \<Rightarrow> real \<Rightarrow> transform" where
  "frame c sel padding maxScale =
     (case (lowest (map node_x sel), highest (map node_x sel),
            lowest (map node_y sel), highest (map node_y sel)) of
        (Some minX0, Some maxX0, Some minY0, Some maxY0) \<Rightarrow>
          (let minX = minX0 - padding; maxX = maxX0 + padding;
               minY = minY0 - padding; maxY = maxY0 + padding;
               width = maxX - minX; height = maxY - minY;
               scale = min (offsetWidth c / width) (min (offsetHeight c / height) maxScale);
               centerX = (minX + maxX) / 2; centerY = (minY + maxY) / 2;
               translateX = offsetWidth c / 2 - centerX * scale;
               translateY = offsetHeight c / 2 - centerY * scale
           in Transform translateX translateY scale)
      | _ \<Rightarrow> NotFinite)"

definition visibleNodes :: "node list \<Rightarrow> node list" where
  "visibleNodes ns =
     filter (\<lambda>n. node_type n = Center \<or> node_type n = Category
                \<or> (node_type n = Item \<and> \<not> hidden n)) ns"

definition mainNodes :: "node list \<Rightarrow> node list" where
  "mainNodes ns = filter (\<lambda>n. node_type n = Center \<or> node_type n = Category) ns"

text \<open>\<open>zoomToVisibleNodes\<close> (line 3311) and \<open>zoomToFit\<close> (line 3360). Both read
  \<open>container.offsetWidth\<close> without a check, which throws when there is no container.\<close>

definition zoomToVisibleNodes :: "view \<Rightarrow> view \<times> error option" where
  "zoomToVisibleNodes s =
     (case v_container s of
        None \<Rightarrow> (s, Some TypeError)
      | Some c \<Rightarrow>
          if visibleNodes (v_nodes s) = [] then (s, None)
          else (s\<lparr>zoomTransform := frame c (visibleNodes (v_nodes s)) 100 (3 / 2)\<rparr>, None))"

definition zoomToFit :: "view \<Rightarrow> view \<times> error option" where
  "zoomToFit s =
     (case v_container s of
        None \<Rightarrow> (s, Some TypeError)
      | Some c \<Rightarrow> (s\<lparr>zoomTransform := frame c (mainNodes (v_nodes s)) 80 1\<rparr>, None))"

definition zoomToCategory :: "string \<Rightarrow> view \<Rightarrow> view \<times> error option" where
  "zoomToCategory categoryKey s = zoomToVisibleNodes s"

section \<open>Visibility Controller\<close>

text \<open>The opacity a branch link and a reference link get from the hidden flags of the
  nodes at their ends (lines 3276 to 3293).\<close>

definition branchOpacity :: "node list \<Rightarrow> link \<Rightarrow> real" where
  "branchOpacity ns l =
     (case endNode ns (target l) of
        None \<Rightarrow> 0
      | Some targetNode \<Rightarrow> if \<not> hidden targetNode then 4 / 10 else 0)"

definition referenceOpacity :: "real \<Rightarrow> node list \<Rightarrow> link \<Rightarrow> real" where
  "referenceOpacity shown ns l =
     (case endNode ns (source l) of
        None \<Rightarrow> 0
      | Some sourceNode \<Rightarrow>
          (case endNode ns (target l) of
             None \<Rightarrow> 0
           | Some targetNode \<Rightarrow>
               if \<not> hidden sourceNode \<and> \<not> hidden targetNode then shown else 0))"

definition updateLink :: "node list \<Rightarrow> link_el \<Rightarrow> link_el" where
  "updateLink ns le =
     (case link_type (datum le) of
        Branch \<Rightarrow> le\<lparr>strokeOpacity := branchOpacity ns (datum le)\<rparr>
      | Reference \<Rightarrow> le\<lparr>strokeOpacity := referenceOpacity (4 / 10) ns (datum le)\<rparr>
      | Spine \<Rightarrow> le)"

text \<open>\<open>showMultipleSubgraphs\<close> (line 3205), called with an array.\<close>

definition showMultipleSubgraphs :: "string option list \<Rightarrow> view \<Rightarrow> view" where
  "showMultipleSubgraphs categories s =
     (let ns = map (\<lambda>n. if node_type n = Item
                          then n\<lparr>hidden := \<not> (category n \<in> set categories)\<rparr> else n)
                   (v_nodes s)
      in s\<lparr>activeSubgraph := (if categories \<noteq> [] then Multi categories else Closed),
            v_nodes := ns,
            v_links := map (updateLink ns) (v_links s)\<rparr>)"

text \<open>\<open>toggleSubgraph\<close> (line 3250); the argument is a category key or \<open>null\<close>.\<close>

definition sameSubgraph :: "subgraph \<Rightarrow> string option \<Rightarrow> bool" where
  "sameSubgraph a categoryKey =
     (case a of
        Closed \<Rightarrow> categoryKey = None
      | Single k \<Rightarrow> categoryKey = Some k
      | Multi _ \<Rightarrow> False)"

definition toggleSubgraph :: "string option \<Rightarrow> view \<Rightarrow> view \<times> error option" where
  "toggleSubgraph categoryKey0 s =
     (let categoryKey = (if sameSubgraph (activeSubgraph s) categoryKey0 then None
                         else categoryKey0);
          ns = map (\<lambda>n. if node_type n = Item
                          then n\<lparr>hidden := (if truthyKey categoryKey
                                               then category n \<noteq> categoryKey else True)\<rparr>
                          else n)
                   (v_nodes s);
          s1 = s\<lparr>activeSubgraph := (case categoryKey of None \<Rightarrow> Closed | Some k \<Rightarrow> Single k),
                 v_nodes := ns,
                 v_links := map (updateLink ns) (v_links s)\<rparr>
      in if truthyKey categoryKey then zoomToCategory (the categoryKey) s1 else zoomToFit s1)"

text \<open>\<open>getRelatedCategories\<close> (line 3178): the categories, in the order of a \<open>Set\<close>, of
  the nodes a reference link connects to the given node.\<close>

definition addCategory :: "node option \<Rightarrow> string list \<Rightarrow> string list" where
  "addCategory n acc =
     (case n of
        None \<Rightarrow> acc
      | Some m \<Rightarrow>
          (case category m of
             None \<Rightarrow> acc
           | Some c \<Rightarrow> if c \<noteq> [] \<and> c \<notin> set acc then acc @ [c] else acc))"

definition relatedStep :: "node list \<Rightarrow> node \<Rightarrow> link_el \<Rightarrow> string list \<Rightarrow> string list" where
  "relatedStep ns d le acc =
     (if link_type (datum le) \<noteq> Reference then acc
      else
        (let acc1 = (if endId ns (source (datum le)) = Some (node_id d)
                     then addCategory (endNode ns (target (datum le))) acc else acc)
         in if endId ns (target (datum le)) = Some (node_id d)
            then addCategory (endNode ns (source (datum le))) acc1 else acc1))"

definition getRelatedCategories :: "view \<Rightarrow> node \<Rightarrow> string list" where
  "getRelatedCategories s d = fold (relatedStep (v_nodes s) d) (v_links s) []"

section \<open>Interaction Layer\<close>

text \<open>\<open>reshuffleGraph\<close> (line 3420): the center is pinned at the centre of the container,
  or at (300, 300) without one; every other node gets a random position and loses its
  pin. The counter is the number of calls of \<open>Math.random\<close> made so far.\<close>

definition reshuffleNode :: "(nat \<Rightarrow> real) \<Rightarrow> real \<Rightarrow> real \<Rightarrow> node \<Rightarrow> nat \<times> node list \<Rightarrow> nat \<times> node list" where
  "reshuffleNode rnd centerX centerY n acc =
     (let r = fst acc
      in case node_type n of
           Center \<Rightarrow>
             (r, snd acc @ [n\<lparr>node_fx := Some centerX, node_fy := Some centerY,
                               node_x := centerX, node_y := centerY\<rparr>])
         | Category \<Rightarrow>
             (let angle = rnd r * pi * 2;
                  radius = 180 * (7 / 10 + rnd (r + 1) * (6 / 10))
              in (r + 2, snd acc @ [n\<lparr>node_x := centerX + cos angle * radius,
                                        node_y := centerY + sin angle * radius,
                                        node_fx := None, node_fy := None\<rparr>]))
         | Item \<Rightarrow>
             (let angle = rnd r * pi * 2;
                  radius = 280 * (6 / 10 + rnd (r + 1) * (8 / 10))
              in (r + 2, snd acc @ [n\<lparr>node_x := centerX + cos angle * radius,
                                        node_y := centerY + sin angle * radius,
                                        node_fx := None, node_fy := None\<rparr>])))"

definition reshuffleGraph :: "(nat \<Rightarrow> real) \<Rightarrow> view \<Rightarrow> view" where
  "reshuffleGraph rnd s =
     s\<lparr>v_nodes := snd (fold (reshuffleNode rnd (halfWidth (v_container s))
                                (halfHeight (v_container s)))
                            (v_nodes s) (0, []))\<rparr>"

text \<open>The drag behaviour (lines 2926 to 2981) on the node at index \<open>i\<close>.\<close>

definition dragStart :: "nat \<Rightarrow> real \<Rightarrow> real \<Rightarrow> view \<Rightarrow> view" where
  "dragStart i ex ey s =
     s\<lparr>v_nodes := (v_nodes s)[i := (v_nodes s ! i)\<lparr>node_fx := Some (node_x (v_nodes s ! i)),
                                                   node_fy := Some (node_y (v_nodes s ! i))\<rparr>],
       dragStartPos := Some (ex, ey), wasDragged := False\<rparr>"

definition dragMove :: "nat \<Rightarrow> real \<Rightarrow> real \<Rightarrow> view \<Rightarrow> view" where
  "dragMove i ex ey s =
     (let s1 = s\<lparr>v_nodes := (v_nodes s)[i := (v_nodes s ! i)\<lparr>node_fx := Some ex,
                                                              node_fy := Some ey\<rparr>]\<rparr>
      in case dragStartPos s of
           None \<Rightarrow> s1
         | Some p \<Rightarrow>
             if sqrt ((ex - fst p) * (ex - fst p) + (ey - snd p) * (ey - snd p)) > 5
                \<and> \<not> wasDragged s
             then s1\<lparr>wasDragged := True\<rparr> else s1)"

definition dragEnd :: "nat \<Rightarrow> view \<Rightarrow> view" where
  "dragEnd i s =
     (let d = v_nodes s ! i;
          s1 = (if node_type d \<noteq> Center
                then s\<lparr>v_nodes := (v_nodes s)[i := d\<lparr>node_fx := None, node_fy := None\<rparr>]\<rparr>
                else s)
      in s1\<lparr>dragStartPos := None\<rparr>)"

text \<open>Hover. The third revision (line 2987) highlights the links that are connected to
  the node and visible; the first revision (line 569) highlights the connected spine and
  branch links, visible or not.\<close>

definition connected :: "node list \<Rightarrow> node \<Rightarrow> link \<Rightarrow> bool" where
  "connected ns d l =
     (endId ns (source l) = Some (node_id d) \<or> endId ns (target l) = Some (node_id d))"

definition mouseover :: "nat \<Rightarrow> view \<Rightarrow> view" where
  "mouseover i s =
     (let d = v_nodes s ! i
      in if hidden d then s
         else s\<lparr>v_links := map (\<lambda>le. if connected (v_nodes s) d (datum le) \<and> strokeOpacity le > 0
                                       then le\<lparr>strokeOpacity := 8 / 10\<rparr> else le)
                                 (v_links s)\<rparr>)"

definition mouseover_auto :: "nat \<Rightarrow> view \<Rightarrow> view" where
  "mouseover_auto i s =
     (let d = v_nodes s ! i
      in if hidden d then s
         else s\<lparr>v_links := map (\<lambda>le. if link_type (datum le) \<noteq> Reference
                                          \<and> connected (v_nodes s) d (datum le)
                                       then le\<lparr>strokeOpacity := 7 / 10\<rparr> else le)
                                 (v_links s)\<rparr>)"

text \<open>\<open>mouseout\<close> (line 3031) resets every link.\<close>

definition mouseout :: "nat \<Rightarrow> view \<Rightarrow> view" where
  "mouseout i s =
     s\<lparr>v_links := map (\<lambda>le. le\<lparr>strokeOpacity :=
                            (case link_type (datum le) of
                               Branch \<Rightarrow> branchOpacity (v_nodes s) (datum le)
                             | Reference \<Rightarrow> referenceOpacity (5 / 10) (v_nodes s) (datum le)
                             | Spine \<Rightarrow> 4 / 10)\<rparr>)
                       (v_links s)\<rparr>"

text \<open>The click handler of a node (line 3065). \<open>nodeClicked\<close> is what runs when the node
  was not dragged, which is also the whole handler of the first revision (line 633). The
  first revision has no drag bookkeeping either; its drag handlers (line 544) set and clear
  the pin as those of the third do.\<close>

definition nodeClicked :: "(nat \<Rightarrow> real) \<Rightarrow> nat \<Rightarrow> view \<Rightarrow> view \<times> error option" where
  "nodeClicked rnd i s =
     (let d = v_nodes s ! i
      in case node_type d of
           Category \<Rightarrow> toggleSubgraph (Some (removeFirst ''cat-'' (node_id d))) s
         | Item \<Rightarrow>
             (showMultipleSubgraphs (category d # map Some (getRelatedCategories s d)) s, None)
         | Center \<Rightarrow>
             (let s1 = reshuffleGraph rnd s
              in if isOpen (activeSubgraph s1) then toggleSubgraph None s1 else (s1, None)))"

definition click :: "(nat \<Rightarrow> real) \<Rightarrow> nat \<Rightarrow> view \<Rightarrow> view \<times> error option" where
  "click rnd i s =
     (if wasDragged s then (s\<lparr>wasDragged := False\<rparr>, None) else nodeClicked rnd i s)"

text \<open>The click handler of the background (line 3133).\<close>

definition backgroundClick :: "view \<Rightarrow> view \<times> error option" where
  "backgroundClick s =
     (if isOpen (activeSubgraph s)
      then zoomToFit
             (s\<lparr>activeSubgraph := Closed,
                v_nodes := map (\<lambda>n. if node_type n = Item then n\<lparr>hidden := True\<rparr> else n)
                               (v_nodes s),
                v_links := map (\<lambda>le. if link_type (datum le) = Branch
                                         \<or> link_type (datum le) = Reference
                                      then le\<lparr>strokeOpacity := 0\<rparr> else le)
                               (v_links s)\<rparr>)
      else (s, None))"

text \<open>The timer a category click sets (line 3084).\<close>

definition recenter :: "view \<Rightarrow> view \<times> error option" where
  "recenter s = (if isOpen (activeSubgraph s) then zoomToVisibleNodes s else zoomToFit s)"

text \<open>The resize handler of \<open>initGraph\<close> (line 2796): the first node with identity
  \<open>center\<close> is pinned at the centre of the new size.\<close>

fun pinFirstCenter :: "real \<Rightarrow> real \<Rightarrow> node list \<Rightarrow> node list" where
  "pinFirstCenter w h [] = []"
| "pinFirstCenter w h (n # ns) =
     (if node_id n = ''center'' then n\<lparr>node_fx := Some (w / 2), node_fy := Some (h / 2)\<rparr> # ns
      else n # pinFirstCenter w h ns)"

definition resize :: "real \<Rightarrow> real \<Rightarrow> view \<Rightarrow> view" where
  "resize newWidth newHeight s =
     s\<lparr>v_nodes := pinFirstCenter newWidth newHeight (v_nodes s),
       v_container := map_option (\<lambda>c. \<lparr>offsetWidth = newWidth, offsetHeight = newHeight\<rparr>)
                                 (v_container s)\<rparr>"

text \<open>A tick of the simulation, another function of the library: a pinned node sits at
  its pin, any other node goes where the forces take it.\<close>

definition tick :: "(nat \<Rightarrow> real \<times> real) \<Rightarrow> view \<Rightarrow> view" where
  "tick pos s =
     s\<lparr>v_nodes := map (\<lambda>(i, n). n\<lparr>node_x := (case node_fx n of Some v \<Rightarrow> v | None \<Rightarrow> fst (pos i)),
                                  node_y := (case node_fy n of Some v \<Rightarrow> v | None \<Rightarrow> snd (pos i))\<rparr>)
                       (enumerate 0 (v_nodes s))\<rparr>"

text \<open>
  The events of the interaction layer. A pointer event names the node element by the
  index of its node; an index beyond the nodes names no element and the event does
  nothing. The three timers are those set by a category click, by an item click and by a
  reshuffle; they are taken as events that may come at any time.
\<close>

datatype event =
    Click nat
  | BackgroundClick
  | MouseOver nat
  | MouseOut nat
  | DragStart nat real real
  | Drag nat real real
  | DragEnd nat
  | RecenterTimer
  | ZoomVisibleTimer
  | ZoomFitTimer
  | Resize real real
  | Tick "nat \<Rightarrow> real \<times> real"

datatype revision = First | Third

definition onNode :: "nat \<Rightarrow> view \<Rightarrow> (view \<Rightarrow> view \<times> error option) \<Rightarrow> view \<times> error option" where
  "onNode i s h = (if i < length (v_nodes s) then h s else (s, None))"

text \<open>The handlers of the two revisions differ in the hover handler and in the check
  for a drag before a click.\<close>

definition hover :: "revision \<Rightarrow> nat \<Rightarrow> view \<Rightarrow> view" where
  "hover rv i s = (case rv of First \<Rightarrow> mouseover_auto i s | Third \<Rightarrow> mouseover i s)"

definition clicked :: "revision \<Rightarrow> (nat \<Rightarrow> real) \<Rightarrow> nat \<Rightarrow> view \<Rightarrow> view \<times> error option" where
  "clicked rv rnd i s = (case rv of First \<Rightarrow> nodeClicked rnd i s | Third \<Rightarrow> click rnd i s)"

fun handle :: "revision \<Rightarrow> (nat \<Rightarrow> real) \<Rightarrow> event \<Rightarrow> view \<Rightarrow> view \<times> error option" where
  "handle rv rnd (Click i) s = onNode i s (clicked rv rnd i)"
| "handle rv rnd BackgroundClick s = backgroundClick s"
| "handle rv rnd (MouseOver i) s = onNode i s (\<lambda>s. (hover rv i s, None))"
| "handle rv rnd (MouseOut i) s = onNode i s (\<lambda>s. (mouseout i s, None))"
| "handle rv rnd (DragStart i ex ey) s = onNode i s (\<lambda>s. (dragStart i ex ey s, None))"
| "handle rv rnd (Drag i ex ey) s = onNode i s (\<lambda>s. (dragMove i ex ey s, None))"
| "handle rv rnd (DragEnd i) s = onNode i s (\<lambda>s. (dragEnd i s, None))"
| "handle rv rnd RecenterTimer s = recenter s"
| "handle rv rnd ZoomVisibleTimer s = zoomToVisibleNodes s"
| "handle rv rnd ZoomFitTimer s = zoomToFit s"
| "handle rv rnd (Resize w h) s = (resize w h s, None)"
| "handle rv rnd (Tick pos) s = (tick pos s, None)"

text \<open>The state after a sequence of events, each with the random numbers it draws. An
  exception ends its handler only; the state it leaves is the state the next event
  finds.\<close>

definition run :: "revision \<Rightarrow> view \<Rightarrow> ((nat \<Rightarrow> real) \<times> event) list \<Rightarrow> view" where
  "run rv s evs = fold (\<lambda>re t. fst (handle rv (fst re) (snd re) t)) evs s"

definition wellFormedGraph :: "graph \<Rightarrow> bool" where
  "wellFormedGraph g =
     (length (filter (\<lambda>n. node_type n = Center) (nodes g)) = 1
      \<and> (\<forall>n \<in> set (nodes g). node_type n = Item \<longrightarrow>
            (\<exists>c \<in> set (nodes g). node_type c = Category \<and> category c = category n))
      \<and> (\<forall>l \<in> set (links g). \<exists>s t. source l = Ident s \<and> target l = Ident t
            \<and> s \<in> node_id ` set (nodes g) \<and> t \<in> node_id ` set (nodes g)))"

definition hierarchyInv :: "build_state \<Rightarrow> bool" where
  "hierarchyInv st =
     (wellFormedGraph \<lparr>nodes = b_nodes st, links = b_links st\<rparr>
      \<and> snd ` set (b_index st) \<subseteq> set (b_nodes st)
      \<and> ''center'' \<in> node_id ` set (b_nodes st))"

definition itemCollector :: "(string \<Rightarrow> item_el \<Rightarrow> nat \<Rightarrow> node) \<Rightarrow> bool" where
  "itemCollector collect =
     (\<forall>k e i. node_type (collect k e i) = Item \<and> category (collect k e i) = Some k)"

definition indexer :: "(node \<Rightarrow> (string \<times> node) list \<Rightarrow> (string \<times> node) list) \<Rightarrow> bool" where
  "indexer addIndex = (\<forall>n m. snd ` set (addIndex n m) \<subseteq> insert n (snd ` set m))"

definition forget :: "node \<Rightarrow> node" where
  "forget n = n\<lparr>node_x := 0, node_y := 0, node_fx := None, node_fy := None\<rparr>"

definition written :: "string \<Rightarrow> nat \<Rightarrow> item_el \<Rightarrow> item_el" where
  "written k i e = e\<lparr>graphId := Some (itemIdentity k e i)\<rparr>"

definition writtenBlock :: "string \<Rightarrow> section_block \<Rightarrow> section_block" where
  "writtenBlock k b =
     b\<lparr>blockItems := map (\<lambda>ie. written k (fst ie) (snd ie)) (enumerate 0 (blockItems b))\<rparr>"

definition writtenPage :: "page \<Rightarrow> page" where
  "writtenPage pg = (\<lambda>k. map_option (writtenBlock k) (pg k))"

definition plainItem :: "(string \<Rightarrow> item_el \<Rightarrow> nat \<Rightarrow> node) \<Rightarrow> string \<Rightarrow> nat \<times> item_el \<Rightarrow> node" where
  "plainItem collect k ie = forget ((collect k (snd ie) (fst ie))\<lparr>hidden := True\<rparr>)"

definition plainCategory :: "string \<Rightarrow> section_block \<Rightarrow> node" where
  "plainCategory k b =
     \<lparr>node_id = ''cat-'' @ k, label = orElse (map_option trim (sectionTitle b)) k,
      subtitle = [], node_type = Category, category = Some k, node_x = 0, node_y = 0,
      node_fx = None, node_fy = None, hidden = False, referenceId = [], fullText = [],
      linksTo = []\<rparr>"

definition plainItems :: "(string \<Rightarrow> item_el \<Rightarrow> nat \<Rightarrow> node) \<Rightarrow> page \<Rightarrow> string \<Rightarrow> node list" where
  "plainItems collect pg k =
     (case pg k of None \<Rightarrow> [] | Some b \<Rightarrow> map (plainItem collect k) (enumerate 0 (blockItems b)))"

definition plainBlock :: "(string \<Rightarrow> item_el \<Rightarrow> nat \<Rightarrow> node) \<Rightarrow> page \<Rightarrow> string \<Rightarrow> node list" where
  "plainBlock collect pg k =
     (case pg k of None \<Rightarrow> [] | Some b \<Rightarrow> plainCategory k b # plainItems collect pg k)"

definition plainNodes :: "(string \<Rightarrow> item_el \<Rightarrow> nat \<Rightarrow> node) \<Rightarrow> string list \<Rightarrow> page \<Rightarrow> node list" where
  "plainNodes collect cfg pg = forget (centerNode 0 0) # concat (map (plainBlock collect pg) cfg)"

definition blockLinks :: "(string \<Rightarrow> item_el \<Rightarrow> nat \<Rightarrow> node) \<Rightarrow> page \<Rightarrow> string \<Rightarrow> link list" where
  "blockLinks collect pg k =
     (case pg k of
        None \<Rightarrow> []
      | Some b \<Rightarrow>
          \<lparr>source = Ident ''center'', target = Ident (''cat-'' @ k), link_type = Spine\<rparr> #
          map (\<lambda>n. \<lparr>source = Ident (''cat-'' @ k), target = Ident (node_id n), link_type = Branch\<rparr>)
              (plainItems collect pg k))"

definition plainLinks :: "(string \<Rightarrow> item_el \<Rightarrow> nat \<Rightarrow> node) \<Rightarrow> string list \<Rightarrow> page \<Rightarrow> link list" where
  "plainLinks collect cfg pg = concat (map (blockLinks collect pg) cfg)"

definition plainIndex ::
  "(node \<Rightarrow> (string \<times> node) list \<Rightarrow> (string \<times> node) list) \<Rightarrow> (string \<Rightarrow> item_el \<Rightarrow> nat \<Rightarrow> node) \<Rightarrow>
   string list \<Rightarrow> page \<Rightarrow> (string \<times> node) list" where
  "plainIndex addIndex collect cfg pg =
     fold addIndex (concat (map (plainItems collect pg) cfg)) []"

definition stableCollector :: "(string \<Rightarrow> item_el \<Rightarrow> nat \<Rightarrow> node) \<Rightarrow> bool" where
  "stableCollector collect =
     (\<forall>k e i. node_id (collect k e i) = itemIdentity k e i
              \<and> collect k (written k i e) i = collect k e i)"

definition plainIndexer :: "(node \<Rightarrow> (string \<times> node) list \<Rightarrow> (string \<times> node) list) \<Rightarrow> bool" where
  "plainIndexer addIndex =
     (\<forall>n m. map (apsnd forget) (addIndex n m) = addIndex (forget n) (map (apsnd forget) m))"









definition derivedIdentity :: "string \<Rightarrow> item_el \<Rightarrow> nat \<Rightarrow> string" where
  "derivedIdentity k e i = k @ ''-'' @ slugify (itemLabel e) @ ''-'' @ numberToString i"

definition expectedIdentity :: "string \<Rightarrow> item_el \<Rightarrow> nat \<Rightarrow> string" where
  "expectedIdentity k e i =
     (case graphId e of
        None \<Rightarrow> derivedIdentity k e i
      | Some s \<Rightarrow> if s = [] then derivedIdentity k e i else s)"

definition expectedIdentities :: "string list \<Rightarrow> page \<Rightarrow> string list" where
  "expectedIdentities cfg pg =
     ''center'' #
     concat (map (\<lambda>k. case pg k of
                         None \<Rightarrow> []
                       | Some b \<Rightarrow> (''cat-'' @ k) #
                           map (\<lambda>ie. expectedIdentity k (snd ie) (fst ie))
                               (enumerate 0 (blockItems b)))
                 cfg)"

definition noExplicitIdentity :: "page \<Rightarrow> bool" where
  "noExplicitIdentity pg =
     (\<forall>k b. pg k = Some b \<longrightarrow> (\<forall>e \<in> set (blockItems b). graphId e = None))"

definition firstSegment :: "string \<Rightarrow> string" where
  "firstSegment s = takeWhile (\<lambda>c. c \<noteq> CHR ''-'') s"

definition lastSegment :: "string \<Rightarrow> string" where
  "lastSegment s = rev (takeWhile (\<lambda>c. c \<noteq> CHR ''-'') (rev s))"

definition plainKeys :: "string list \<Rightarrow> bool" where
  "plainKeys cfg =
     (distinct cfg \<and> (\<forall>k \<in> set cfg. CHR ''-'' \<notin> set k \<and> k \<noteq> ''cat'' \<and> k \<noteq> ''center''))"

definition owner :: "string \<Rightarrow> string" where
  "owner s = (if firstSegment s = ''cat'' then drop 4 s else firstSegment s)"

definition derivedBlock :: "page \<Rightarrow> string \<Rightarrow> string list" where
  "derivedBlock pg k =
     (case pg k of
        None \<Rightarrow> []
      | Some b \<Rightarrow> (''cat-'' @ k) #
          map (\<lambda>ie. derivedIdentity k (snd ie) (fst ie)) (enumerate 0 (blockItems b)))"

definition derivedIdentities :: "string list \<Rightarrow> page \<Rightarrow> string list" where
  "derivedIdentities cfg pg = ''center'' # concat (map (derivedBlock pg) cfg)"

definition digitValue :: "char \<Rightarrow> nat" where
  "digitValue c = (case map_of (zip ''0123456789'' [0 ..< 10]) c of Some d \<Rightarrow> d | None \<Rightarrow> 0)"

definition parseNumber :: "string \<Rightarrow> nat" where
  "parseNumber s = fold (\<lambda>c n. 10 * n + digitValue c) s 0"


definition isWordChar :: "char \<Rightarrow> bool" where
  "isWordChar c = (isLower c \<or> isUpper c \<or> isDigit c \<or> c = CHR ''_'')"

definition wordAt :: "char option \<Rightarrow> bool" where
  "wordAt c = (case c of None \<Rightarrow> False | Some d \<Rightarrow> isWordChar d)"

definition firstChar :: "string \<Rightarrow> char option" where
  "firstChar s = (case s of [] \<Rightarrow> None | c # _ \<Rightarrow> Some c)"

definition matchesAt :: "string \<Rightarrow> char option \<Rightarrow> string \<Rightarrow> bool" where
  "matchesAt p prev t =
     (length p \<le> length t
      \<and> toLowerCase (take (length p) t) = toLowerCase p
      \<and> wordAt prev \<noteq> wordAt (firstChar t)
      \<and> wordAt (firstChar (rev (take (length p) t))) \<noteq> wordAt (firstChar (drop (length p) t)))"

fun wordSearch :: "string \<Rightarrow> char option \<Rightarrow> string \<Rightarrow> bool" where
  "wordSearch p prev [] = False"
| "wordSearch p prev (c # cs) = (matchesAt p prev (c # cs) \<or> wordSearch p (Some c) cs)"

definition wholeWordTest :: "string \<Rightarrow> string \<Rightarrow> bool" where
  "wholeWordTest refId text = wordSearch refId None text"

definition fixedRandom :: "nat \<Rightarrow> real" where
  "fixedRandom i = 1 / 2"

definition contentBlock :: "string \<Rightarrow> string \<Rightarrow> item_el" where
  "contentBlock title body =
     \<lparr>graphId = None, graphLabel = None, graphSubtitle = None, graphRef = None,
      graphLinksTo = None, titleText = Some title, subtitleText = None,
      textContent = title @ '' '' @ body\<rparr>"

definition examplePage :: page where
  "examplePage =
     (\<lambda>k. if k = ''work'' then
            Some \<lparr>sectionTitle = Some ''Work'',
                  blockItems = [(contentBlock ''Acme'' ''uses Kyo'')
                                  \<lparr>graphLinksTo := Some ''projects-kyo-0, projects-none-7''\<rparr>,
                                contentBlock ''Initech'' ''ops'',
                                contentBlock ''Globex'' ''data'']\<rparr>
          else if k = ''projects'' then
            Some \<lparr>sectionTitle = Some ''Projects'',
                  blockItems = [contentBlock ''Kyo'' ''effects'',
                                contentBlock ''Zio'' ''lib'']\<rparr>
          else None)"

definition examplePage_auto :: page where
  "examplePage_auto =
     (\<lambda>k. if k = ''work'' then
            Some \<lparr>sectionTitle = Some ''Work'',
                  blockItems = [contentBlock ''Acme'' ''uses Kyo'',
                                contentBlock ''Initech'' ''ops'',
                                contentBlock ''Globex'' ''data'']\<rparr>
          else if k = ''opensource'' then
            Some \<lparr>sectionTitle = Some ''Projects'',
                  blockItems = [contentBlock ''Kyo'' ''effects'',
                                contentBlock ''Zio'' ''lib'']\<rparr>
          else None)"


definition plainGraph_auto :: "(string \<Rightarrow> string \<Rightarrow> bool) \<Rightarrow> page \<Rightarrow> graph" where
  "plainGraph_auto rx pg =
     \<lparr>nodes = plainNodes collectItemData_auto sectionConfig_auto pg,
      links = plainLinks collectItemData_auto sectionConfig_auto pg @
        concat (map (referenceLinksOf_auto rx
                      (plainIndex indexNode_auto collectItemData_auto sectionConfig_auto pg))
                    (plainNodes collectItemData_auto sectionConfig_auto pg))\<rparr>"

definition plainGraph :: "page \<Rightarrow> graph" where
  "plainGraph pg =
     \<lparr>nodes = plainNodes collectItemData sectionConfig pg,
      links = plainLinks collectItemData sectionConfig pg @
        concat (map (referenceLinksOf (plainIndex indexNode collectItemData sectionConfig pg))
                    (plainNodes collectItemData sectionConfig pg))\<rparr>"

definition twinPage :: page where
  "twinPage =
     (\<lambda>k. if k = ''work'' then
            Some \<lparr>sectionTitle = None,
                  blockItems = [contentBlock ''Acme'' ''2019'', contentBlock ''Acme'' ''2023'']\<rparr>
          else None)"

section \<open>Properties of the running graph\<close>

text \<open>
  What the statements about the Visibility Controller, the Viewport Controller and the
  Interaction Layer are written with. The key of a node is what no handler but the
  visibility transitions changes: identity, type, category and hidden flag.
\<close>

definition nodeKey :: "node \<Rightarrow> string \<times> node_type \<times> string option \<times> bool" where
  "nodeKey n = (node_id n, node_type n, category n, hidden n)"

text \<open>
  The visibility invariant: a branch link is visible exactly when the item at its target
  is not hidden, a reference link exactly when the items at both its ends are not hidden.
  It is stated for the links whose ends resolve to item nodes.
\<close>

definition visibilityInvariant :: "view \<Rightarrow> bool" where
  "visibilityInvariant s =
     (\<forall>le \<in> set (v_links s).
        (link_type (datum le) = Branch \<longrightarrow>
           (\<forall>t. endNode (v_nodes s) (target (datum le)) = Some t \<and> node_type t = Item \<longrightarrow>
                (strokeOpacity le > 0 \<longleftrightarrow> \<not> hidden t)))
      \<and> (link_type (datum le) = Reference \<longrightarrow>
           (\<forall>a b. endNode (v_nodes s) (source (datum le)) = Some a \<and> node_type a = Item
                  \<and> endNode (v_nodes s) (target (datum le)) = Some b \<and> node_type b = Item \<longrightarrow>
                (strokeOpacity le > 0 \<longleftrightarrow> \<not> hidden a \<and> \<not> hidden b))))"


text \<open>The items that are not hidden all belong to one category.\<close>

definition atMostOneCategory :: "view \<Rightarrow> bool" where
  "atMostOneCategory s =
     (\<exists>k. \<forall>n \<in> set (v_nodes s). node_type n = Item \<and> \<not> hidden n \<longrightarrow> category n = Some k)"

text \<open>
  The state \<open>toggleSubgraph\<close> leaves, up to the zoom transform: the key it
  works with (\<open>null\<close> when the category is the open one), the nodes and the view.
\<close>

definition effectiveKey :: "view \<Rightarrow> string option \<Rightarrow> string option" where
  "effectiveKey s key = (if sameSubgraph (activeSubgraph s) key then None else key)"

definition toggledNodes :: "string option \<Rightarrow> node list \<Rightarrow> node list" where
  "toggledNodes k ns =
     map (\<lambda>n. if node_type n = Item
               then n\<lparr>hidden := (if truthyKey k then category n \<noteq> k else True)\<rparr> else n) ns"

definition toggled :: "string option \<Rightarrow> view \<Rightarrow> view" where
  "toggled key s =
     s\<lparr>activeSubgraph := (case effectiveKey s key of None \<Rightarrow> Closed | Some c \<Rightarrow> Single c),
       v_nodes := toggledNodes (effectiveKey s key) (v_nodes s),
       v_links := map (updateLink (toggledNodes (effectiveKey s key) (v_nodes s))) (v_links s)\<rparr>"

text \<open>The state the background click leaves, up to the zoom transform.\<close>

definition closedAll :: "view \<Rightarrow> view" where
  "closedAll s =
     s\<lparr>activeSubgraph := Closed,
       v_nodes := map (\<lambda>n. if node_type n = Item then n\<lparr>hidden := True\<rparr> else n) (v_nodes s),
       v_links := map (\<lambda>le. if link_type (datum le) = Branch \<or> link_type (datum le) = Reference
                             then le\<lparr>strokeOpacity := 0\<rparr> else le) (v_links s)\<rparr>"

text \<open>An event that is not a click on an item node, given the types of the nodes.\<close>

definition notItemClick :: "node_type list \<Rightarrow> event \<Rightarrow> bool" where
  "notItemClick ts ev = (case ev of Click i \<Rightarrow> \<not> (i < length ts \<and> ts ! i = Item) | _ \<Rightarrow> True)"

text \<open>
  A rendered graph of two categories with one item each and one cross-reference, in a
  container of 600 by 400, and the state after a click on its first category node.
\<close>

definition sampleNode :: "string \<Rightarrow> node_type \<Rightarrow> string option \<Rightarrow> real \<Rightarrow> real \<Rightarrow> node" where
  "sampleNode ident ty cat px py =
     \<lparr>node_id = ident, label = ident, subtitle = [], node_type = ty, category = cat,
      node_x = px, node_y = py,
      node_fx = (if ty = Center then Some px else None),
      node_fy = (if ty = Center then Some py else None),
      hidden = (ty = Item), referenceId = [], fullText = [], linksTo = []\<rparr>"

definition sampleLink :: "string \<Rightarrow> string \<Rightarrow> link_type \<Rightarrow> link_el" where
  "sampleLink a b ty =
     \<lparr>datum = \<lparr>source = Ident a, target = Ident b, link_type = ty\<rparr>,
      strokeOpacity = (if ty = Spine then 4 / 10 else 0)\<rparr>"

definition sampleView :: view where
  "sampleView =
     \<lparr>v_nodes = [sampleNode ''center'' Center None 300 200,
                 sampleNode ''cat-work'' Category (Some ''work'') 300 60,
                 sampleNode ''work-acme-0'' Item (Some ''work'') 310 40,
                 sampleNode ''cat-projects'' Category (Some ''projects'') 440 200,
                 sampleNode ''projects-kyo-0'' Item (Some ''projects'') 450 210],
      v_links = [sampleLink ''center'' ''cat-work'' Spine,
                 sampleLink ''cat-work'' ''work-acme-0'' Branch,
                 sampleLink ''center'' ''cat-projects'' Spine,
                 sampleLink ''cat-projects'' ''projects-kyo-0'' Branch,
                 sampleLink ''work-acme-0'' ''projects-kyo-0'' Reference],
      activeSubgraph = Closed, wasDragged = False, dragStartPos = None,
      zoomTransform = Transform 0 0 1,
      v_container = Some \<lparr>offsetWidth = 600, offsetHeight = 400\<rparr>\<rparr>"

definition openedView :: view where
  "openedView = fst (handle Third fixedRandom (Click 1) sampleView)"



definition allItemsHidden :: "node list \<Rightarrow> bool" where
  "allItemsHidden ns = (\<forall>n \<in> set ns. node_type n = Item \<longrightarrow> hidden n)"

text \<open>
  The categories an item click is to open: the category of the clicked node and the
  category of every node that a reference link joins to it, in either direction. A link
  joins a node to the clicked one when its other end has the identity of the clicked node.
\<close>

definition categoryOf :: "node option \<Rightarrow> string list" where
  "categoryOf n =
     (case n of None \<Rightarrow> [] | Some m \<Rightarrow> (case category m of None \<Rightarrow> [] | Some c \<Rightarrow> [c]))"

definition neighbourCategories :: "node list \<Rightarrow> node \<Rightarrow> link \<Rightarrow> string list" where
  "neighbourCategories ns d l =
     (if link_type l = Reference
      then (if endId ns (source l) = Some (node_id d) then categoryOf (endNode ns (target l))
            else [])
         @ (if endId ns (target l) = Some (node_id d) then categoryOf (endNode ns (source l))
            else [])
      else [])"

definition statedCategories :: "view \<Rightarrow> node \<Rightarrow> string option set" where
  "statedCategories s d =
     insert (category d)
       (Some ` (\<Union>le \<in> set (v_links s). set (neighbourCategories (v_nodes s) d (datum le))))"

definition namedCategories :: "node list \<Rightarrow> bool" where
  "namedCategories ns = list_all (\<lambda>n. category n \<noteq> Some []) ns"








lemma mapSet_values: "snd ` set (mapSet k v m) \<subseteq> insert v (snd ` set m)"
proof (induction m)
  case Nil
  then show ?case by simp
next
  case (Cons p m)
  obtain k' v' where p: "p = (k', v')" by (cases p)
  show ?case using Cons unfolding p by (cases "k' = k") force+
qed

lemma mapGet_value: "mapGet m k = Some v \<Longrightarrow> v \<in> snd ` set m"
  unfolding mapGet_def by (metis map_of_SomeD image_eqI snd_conv)

lemma indexer_auto: "indexer indexNode_auto"
  by (simp add: indexer_def indexNode_auto_def mapSet_values subset_insertI)

lemma indexer_manual: "indexer indexNode"
  by (simp add: indexer_def indexNode_def mapSet_values)

lemma itemCollector_auto: "itemCollector collectItemData_auto"
  by (simp add: itemCollector_def collectItemData_auto_def Let_def)

lemma itemCollector_manual: "itemCollector collectItemData"
  by (simp add: itemCollector_def collectItemData_def Let_def)

lemma wellFormed_links:
  assumes wf: "wellFormedGraph \<lparr>nodes = ns, links = ls\<rparr>"
    and new: "\<forall>l \<in> set ls'. \<exists>s t. source l = Ident s \<and> target l = Ident t
            \<and> s \<in> node_id ` set ns \<and> t \<in> node_id ` set ns"
  shows "wellFormedGraph \<lparr>nodes = ns, links = ls @ ls'\<rparr>"
  using wf new unfolding wellFormedGraph_def by (simp add: ball_Un)

lemma wellFormed_node:
  assumes wf: "wellFormedGraph \<lparr>nodes = ns, links = ls\<rparr>"
    and ty: "node_type n \<noteq> Center"
    and cn: "node_type n = Item \<longrightarrow>
               (\<exists>c \<in> set ns. node_type c = Category \<and> category c = category n)"
  shows "wellFormedGraph \<lparr>nodes = ns @ [n], links = ls\<rparr>"
proof -
  have c1: "length (filter (\<lambda>m. node_type m = Center) (ns @ [n])) = 1"
    using wf ty by (simp add: wellFormedGraph_def)
  have c2: "\<forall>m \<in> set (ns @ [n]). node_type m = Item \<longrightarrow>
            (\<exists>c \<in> set (ns @ [n]). node_type c = Category \<and> category c = category m)"
  proof
    fix m assume m: "m \<in> set (ns @ [n])"
    show "node_type m = Item \<longrightarrow> (\<exists>c \<in> set (ns @ [n]). node_type c = Category \<and> category c = category m)"
    proof (cases "m = n")
      case True
      then show ?thesis using cn by auto
    next
      case False
      then have "m \<in> set ns" using m by simp
      then show ?thesis using wf by (fastforce simp: wellFormedGraph_def)
    qed
  qed
  have old: "\<forall>l \<in> set ls. \<exists>s t. source l = Ident s \<and> target l = Ident t
            \<and> s \<in> node_id ` set ns \<and> t \<in> node_id ` set ns"
    using wf by (simp add: wellFormedGraph_def)
  have c3: "\<forall>l \<in> set ls. \<exists>s t. source l = Ident s \<and> target l = Ident t
            \<and> s \<in> node_id ` set (ns @ [n]) \<and> t \<in> node_id ` set (ns @ [n])"
  proof
    fix l assume "l \<in> set ls"
    then obtain a b where "source l = Ident a" "target l = Ident b"
        "a \<in> node_id ` set ns" "b \<in> node_id ` set ns" using old by blast
    then show "\<exists>s t. source l = Ident s \<and> target l = Ident t
            \<and> s \<in> node_id ` set (ns @ [n]) \<and> t \<in> node_id ` set (ns @ [n])" by auto
  qed
  show ?thesis unfolding wellFormedGraph_def using c1 c2 c3 by simp
qed

lemma wellFormed_snoc:
  assumes wf: "wellFormedGraph \<lparr>nodes = ns, links = ls\<rparr>"
    and ty: "node_type n \<noteq> Center"
    and cn: "node_type n = Item \<longrightarrow>
               (\<exists>c \<in> set ns. node_type c = Category \<and> category c = category n)"
    and s: "s \<in> node_id ` set ns"
  shows "wellFormedGraph \<lparr>nodes = ns @ [n],
           links = ls @ [\<lparr>source = Ident s, target = Ident (node_id n), link_type = lt\<rparr>]\<rparr>"
proof (rule wellFormed_links[OF wellFormed_node[OF wf ty cn]])
  show "\<forall>l\<in>set [\<lparr>source = Ident s, target = Ident (node_id n), link_type = lt\<rparr>].
       \<exists>s t. source l = Ident s \<and> target l = Ident t \<and>
          s \<in> node_id ` set (ns @ [n]) \<and> t \<in> node_id ` set (ns @ [n])"
    using s by auto
qed

lemma itemStep_inv:
  assumes c: "itemCollector collect" and a: "indexer addIndex"
    and inv: "hierarchyInv st"
    and cn: "cn \<in> set (b_nodes st)" "node_type cn = Category" "category cn = Some catKey"
            "node_id cn = ''cat-'' @ catKey"
  shows "hierarchyInv (itemStep collect addIndex rnd catKey cx cy ie st)"
    and "cn \<in> set (b_nodes (itemStep collect addIndex rnd catKey cx cy ie st))"
proof -
  define n where "n = (collect catKey (snd ie) (fst ie))\<lparr>node_x := cx + (rnd (b_rand st) - 1 / 2) * 60,
              node_y := cy + (rnd (b_rand st + 1) - 1 / 2) * 60, hidden := True\<rparr>"
  define st' where "st' = itemStep collect addIndex rnd catKey cx cy ie st"
  have ty: "node_type n = Item" and ca: "category n = Some catKey"
    using c by (simp_all add: itemCollector_def n_def)
  have ns: "b_nodes st' = b_nodes st @ [n]"
    by (simp add: st'_def itemStep_def Let_def n_def)
  have ls: "b_links st' = b_links st @ [\<lparr>source = Ident (''cat-'' @ catKey), target = Ident (node_id n),
                 link_type = Branch\<rparr>]"
    by (simp add: st'_def itemStep_def Let_def n_def)
  have ix: "b_index st' = addIndex n (b_index st)"
    by (simp add: st'_def itemStep_def Let_def n_def)
  have "snd ` set (addIndex n (b_index st)) \<subseteq> insert n (snd ` set (b_index st))"
    using a unfolding indexer_def by blast
  then have i2: "snd ` set (b_index st') \<subseteq> set (b_nodes st')"
    using inv unfolding hierarchyInv_def ix ns by auto
  have src: "''cat-'' @ catKey \<in> node_id ` set (b_nodes st)" using cn by force
  have wf: "wellFormedGraph \<lparr>nodes = b_nodes st, links = b_links st\<rparr>"
    using inv by (simp add: hierarchyInv_def)
  have ex: "node_type n = Item \<longrightarrow>
               (\<exists>c \<in> set (b_nodes st). node_type c = Category \<and> category c = category n)"
    using cn ca by auto
  have "wellFormedGraph \<lparr>nodes = b_nodes st', links = b_links st'\<rparr>"
    unfolding ns ls using ty by (intro wellFormed_snoc[OF wf _ ex src]) simp
  moreover have "''center'' \<in> node_id ` set (b_nodes st')"
    using inv unfolding hierarchyInv_def ns by auto
  ultimately show "hierarchyInv (itemStep collect addIndex rnd catKey cx cy ie st)"
    using i2 unfolding hierarchyInv_def st'_def by simp
  show "cn \<in> set (b_nodes (itemStep collect addIndex rnd catKey cx cy ie st))"
    using ns cn(1) unfolding st'_def by simp
qed

lemma fold_itemStep_inv:
  assumes c: "itemCollector collect" and a: "indexer addIndex"
    and cn: "node_type cn = Category" "category cn = Some catKey" "node_id cn = ''cat-'' @ catKey"
  shows "hierarchyInv st \<Longrightarrow> cn \<in> set (b_nodes st) \<Longrightarrow>
         hierarchyInv (fold (itemStep collect addIndex rnd catKey cx cy) ies st)"
proof (induction ies arbitrary: st)
  case Nil
  then show ?case by simp
next
  case (Cons ie ies)
  have "hierarchyInv (itemStep collect addIndex rnd catKey cx cy ie st)"
    and "cn \<in> set (b_nodes (itemStep collect addIndex rnd catKey cx cy ie st))"
    using itemStep_inv[OF c a Cons.prems(1) Cons.prems(2) cn] by blast+
  then show ?case using Cons.IH by simp
qed

lemma categoryStep_inv:
  assumes c: "itemCollector collect" and a: "indexer addIndex" and inv: "hierarchyInv st"
  shows "hierarchyInv (categoryStep collect addIndex rnd centerX centerY ncat ic st)"
proof (cases "b_page st (snd ic)")
  case None
  then show ?thesis using inv by (simp add: categoryStep_def Let_def)
next
  case (Some block)
  define catKey where "catKey = snd ic"
  define cn where "cn = \<lparr>node_id = ''cat-'' @ catKey,
      label = orElse (map_option trim (sectionTitle block)) catKey, subtitle = [],
      node_type = Category, category = Some catKey,
      node_x = centerX + cos (real (fst ic) * ((pi * 2) / real ncat) - pi / 2) * CATEGORY_RADIUS,
      node_y = centerY + sin (real (fst ic) * ((pi * 2) / real ncat) - pi / 2) * CATEGORY_RADIUS,
      node_fx = None, node_fy = None,
      hidden = False, referenceId = [], fullText = [], linksTo = []\<rparr>"
  define st1 where "st1 = st\<lparr>b_nodes := b_nodes st @ [cn],
      b_links := b_links st @ [\<lparr>source = Ident ''center'', target = Ident (node_id cn),
                              link_type = Spine\<rparr>]\<rparr>"
  have step: "categoryStep collect addIndex rnd centerX centerY ncat ic st =
      fold (itemStep collect addIndex rnd catKey (node_x cn) (node_y cn))
           (enumerate 0 (blockItems block)) st1"
    using Some by (simp add: categoryStep_def Let_def st1_def cn_def catKey_def)
  have wf: "wellFormedGraph \<lparr>nodes = b_nodes st, links = b_links st\<rparr>"
    and ce: "''center'' \<in> node_id ` set (b_nodes st)"
    using inv by (simp_all add: hierarchyInv_def)
  have cty: "node_type cn = Category" "category cn = Some catKey" "node_id cn = ''cat-'' @ catKey"
    by (simp_all add: cn_def)
  have wf1: "wellFormedGraph \<lparr>nodes = b_nodes st1, links = b_links st1\<rparr>"
  proof -
    have e: "b_nodes st1 = b_nodes st @ [cn]"
      "b_links st1 = b_links st @ [\<lparr>source = Ident ''center'', target = Ident (node_id cn),
                              link_type = Spine\<rparr>]"
      by (simp_all add: st1_def)
    show ?thesis unfolding e using cty by (intro wellFormed_snoc[OF wf _ _ ce]) simp_all
  qed
  have "hierarchyInv st1"
    using wf1 inv unfolding hierarchyInv_def by (auto simp: st1_def)
  moreover have "cn \<in> set (b_nodes st1)" by (simp add: st1_def)
  ultimately show ?thesis
    unfolding step by (rule fold_itemStep_inv[OF c a cty])
qed

lemma fold_categoryStep_inv:
  assumes c: "itemCollector collect" and a: "indexer addIndex"
  shows "hierarchyInv st \<Longrightarrow>
         hierarchyInv (fold (categoryStep collect addIndex rnd centerX centerY ncat) ics st)"
  by (induction ics arbitrary: st) (simp_all add: categoryStep_inv[OF c a])

lemma buildHierarchy_inv:
  assumes c: "itemCollector collect" and a: "indexer addIndex"
  shows "hierarchyInv (buildHierarchy collect addIndex cfg rnd cont pg)"
  unfolding buildHierarchy_def Let_def
  by (rule fold_categoryStep_inv[OF c a])
     (simp add: hierarchyInv_def wellFormedGraph_def centerNode_def)

lemma referenceLinksOf_auto_ends:
  assumes "n \<in> set ns" and "snd ` set index \<subseteq> set ns"
    and "l \<in> set (referenceLinksOf_auto rx index n)"
  shows "\<exists>s t. source l = Ident s \<and> target l = Ident t
            \<and> s \<in> node_id ` set ns \<and> t \<in> node_id ` set ns"
proof -
  from assms(3) obtain refId t where t: "mapGet index refId = Some t"
    and l: "l = \<lparr>source = Ident (node_id n), target = Ident (node_id t), link_type = Reference\<rparr>"
    unfolding referenceLinksOf_auto_def
    by (auto split: if_splits option.splits) metis
  have "t \<in> set ns" using mapGet_value[OF t] assms(2) by blast
  then show ?thesis using l assms(1) by auto
qed

lemma referenceLinksOf_ends:
  assumes "n \<in> set ns" and "snd ` set index \<subseteq> set ns"
    and "l \<in> set (referenceLinksOf index n)"
  shows "\<exists>s t. source l = Ident s \<and> target l = Ident t
            \<and> s \<in> node_id ` set ns \<and> t \<in> node_id ` set ns"
proof -
  from assms(3) obtain targetId t where t: "mapGet index targetId = Some t"
    and l: "l = \<lparr>source = Ident (node_id n), target = Ident (node_id t), link_type = Reference\<rparr>"
    unfolding referenceLinksOf_def
    by (auto split: if_splits option.splits) metis
  have "t \<in> set ns" using mapGet_value[OF t] assms(2) by blast
  then show ?thesis using l assms(1) by auto
qed

text \<open>
  Claim C1. Every graph the Graph Builder returns, in the revision with automatic
  references and in the revision with author-specified ones, has exactly one node of type
  center; for every item node a category node with the item's category key; and both ends
  of every link are identities of nodes of the graph.
\<close>

theorem buildGraphData_wellFormed:
  "wellFormedGraph (fst (buildGraphData_auto rx rnd cont pg))
   \<and> wellFormedGraph (fst (buildGraphData rnd cont pg))"
proof
  define st where "st = buildHierarchy collectItemData_auto indexNode_auto sectionConfig_auto rnd cont pg"
  have inv: "hierarchyInv st"
    unfolding st_def by (rule buildHierarchy_inv[OF itemCollector_auto indexer_auto])
  have "wellFormedGraph \<lparr>nodes = b_nodes st,
      links = b_links st @ concat (map (referenceLinksOf_auto rx (b_index st)) (b_nodes st))\<rparr>"
  proof (rule wellFormed_links)
    show "wellFormedGraph \<lparr>nodes = b_nodes st, links = b_links st\<rparr>"
      using inv by (simp add: hierarchyInv_def)
    show "\<forall>l\<in>set (concat (map (referenceLinksOf_auto rx (b_index st)) (b_nodes st))).
       \<exists>s t. source l = Ident s \<and> target l = Ident t \<and>
          s \<in> node_id ` set (b_nodes st) \<and> t \<in> node_id ` set (b_nodes st)"
      using inv referenceLinksOf_auto_ends[of _ "b_nodes st" "b_index st"]
      unfolding hierarchyInv_def by auto
  qed
  then show "wellFormedGraph (fst (buildGraphData_auto rx rnd cont pg))"
    by (simp add: buildGraphData_auto_def Let_def st_def)
next
  define st where "st = buildHierarchy collectItemData indexNode sectionConfig rnd cont pg"
  have inv: "hierarchyInv st"
    unfolding st_def by (rule buildHierarchy_inv[OF itemCollector_manual indexer_manual])
  have "wellFormedGraph \<lparr>nodes = b_nodes st,
      links = b_links st @ concat (map (referenceLinksOf (b_index st)) (b_nodes st))\<rparr>"
  proof (rule wellFormed_links)
    show "wellFormedGraph \<lparr>nodes = b_nodes st, links = b_links st\<rparr>"
      using inv by (simp add: hierarchyInv_def)
    show "\<forall>l\<in>set (concat (map (referenceLinksOf (b_index st)) (b_nodes st))).
       \<exists>s t. source l = Ident s \<and> target l = Ident t \<and>
          s \<in> node_id ` set (b_nodes st) \<and> t \<in> node_id ` set (b_nodes st)"
      using inv referenceLinksOf_ends[of _ "b_nodes st" "b_index st"]
      unfolding hierarchyInv_def by auto
  qed
  then show "wellFormedGraph (fst (buildGraphData rnd cont pg))"
    by (simp add: buildGraphData_def Let_def st_def)
qed

lemma orElse_nonempty: "b \<noteq> [] \<Longrightarrow> orElse a b \<noteq> []"
  by (simp add: orElse_def split: option.splits)

lemma itemIdentity_nonempty: "itemIdentity k e i \<noteq> []"
  unfolding itemIdentity_def by (rule orElse_nonempty) simp

lemma itemLabel_written: "itemLabel (e\<lparr>graphId := g\<rparr>) = itemLabel e"
  by (simp add: itemLabel_def)

lemma itemSubtitle_written: "itemSubtitle (e\<lparr>graphId := g\<rparr>) = itemSubtitle e"
  by (simp add: itemSubtitle_def)

lemma itemIdentity_written: "itemIdentity k (written k i e) i = itemIdentity k e i"
  using itemIdentity_nonempty[of k e i]
  by (simp add: written_def itemIdentity_def[of k "e\<lparr>graphId := _\<rparr>"] orElse_def)

lemma written_idem: "written k i (e\<lparr>graphId := Some (itemIdentity k e i)\<rparr>) = written k i e"
  using itemIdentity_written[of k i e] by (simp add: written_def)

lemma stable_auto: "stableCollector collectItemData_auto"
  unfolding stableCollector_def
  by (simp add: collectItemData_auto_def Let_def itemIdentity_written)
     (simp add: written_def itemLabel_written itemSubtitle_written)

lemma stable_manual: "stableCollector collectItemData"
  unfolding stableCollector_def
  by (simp add: collectItemData_def Let_def itemIdentity_written)
     (simp add: written_def itemLabel_written itemSubtitle_written)

lemma mapSet_map: "map (apsnd f) (mapSet k v m) = mapSet k (f v) (map (apsnd f) m)"
  by (induction m) auto

lemma plainIndexer_auto: "plainIndexer indexNode_auto"
  by (simp add: plainIndexer_def indexNode_auto_def mapSet_map forget_def)

lemma plainIndexer_manual: "plainIndexer indexNode"
  by (simp add: plainIndexer_def indexNode_def mapSet_map forget_def)

lemma map_enumerate_update:
  assumes "i < length xs" and "f (i, x') = f (i, xs ! i)"
  shows "map f (enumerate 0 (xs[i := x'])) = map f (enumerate 0 xs)"
proof (rule nth_equalityI)
  show "length (map f (enumerate 0 (xs[i := x']))) = length (map f (enumerate 0 xs))" by simp
next
  fix j assume "j < length (map f (enumerate 0 (xs[i := x'])))"
  then have j: "j < length xs" by simp
  show "map f (enumerate 0 (xs[i := x'])) ! j = map f (enumerate 0 xs) ! j"
    using j assms by (cases "j = i") (simp_all add: nth_enumerate_eq)
qed

lemma map_enumerate_cong:
  assumes eq: "map W (enumerate 0 xs) = map W (enumerate 0 ys)"
    and fac: "\<And>i e. P (i, e) = H i (W (i, e))"
  shows "map P (enumerate 0 xs) = map P (enumerate 0 ys)"
proof (rule nth_equalityI)
  have "length (map W (enumerate 0 xs)) = length (map W (enumerate 0 ys))" using eq by simp
  then show len: "length (map P (enumerate 0 xs)) = length (map P (enumerate 0 ys))" by simp
  fix j assume "j < length (map P (enumerate 0 xs))"
  then have j: "j < length xs" "j < length ys" using len by simp_all
  have "map W (enumerate 0 xs) ! j = map W (enumerate 0 ys) ! j" using eq by simp
  then have "W (j, xs ! j) = W (j, ys ! j)" using j by (simp add: nth_enumerate_eq)
  then show "map P (enumerate 0 xs) ! j = map P (enumerate 0 ys) ! j"
    using j by (simp add: nth_enumerate_eq fac)
qed

lemma writtenBlock_eqD:
  assumes "writtenBlock k b = writtenBlock k b'"
  shows "sectionTitle b = sectionTitle b'"
    and "map (\<lambda>ie. written k (fst ie) (snd ie)) (enumerate 0 (blockItems b))
         = map (\<lambda>ie. written k (fst ie) (snd ie)) (enumerate 0 (blockItems b'))"
proof -
  have "sectionTitle (writtenBlock k b) = sectionTitle (writtenBlock k b')"
    and "blockItems (writtenBlock k b) = blockItems (writtenBlock k b')"
    using assms by simp_all
  then show "sectionTitle b = sectionTitle b'"
    and "map (\<lambda>ie. written k (fst ie) (snd ie)) (enumerate 0 (blockItems b))
         = map (\<lambda>ie. written k (fst ie) (snd ie)) (enumerate 0 (blockItems b'))"
    by (simp_all add: writtenBlock_def)
qed

lemma writtenPage_cases:
  assumes "writtenPage p = writtenPage q"
  shows "(p k = None \<and> q k = None)
       \<or> (\<exists>b b'. p k = Some b \<and> q k = Some b' \<and> writtenBlock k b = writtenBlock k b')"
proof -
  have "map_option (writtenBlock k) (p k) = map_option (writtenBlock k) (q k)"
    using fun_cong[OF assms, of k] by (simp add: writtenPage_def)
  then show ?thesis by (cases "p k"; cases "q k") simp_all
qed

lemma plainItem_written:
  assumes "stableCollector c"
  shows "plainItem c k (i, e) = plainItem c k (i, written k i e)"
  using assms by (simp add: plainItem_def stableCollector_def)

lemma plainItems_cong:
  assumes c: "stableCollector c" and eq: "writtenPage p = writtenPage q"
  shows "plainItems c p k = plainItems c q k"
  using writtenPage_cases[OF eq, of k]
proof (elim disjE exE conjE)
  assume "p k = None" "q k = None"
  then show ?thesis by (simp add: plainItems_def)
next
  fix b b' assume b: "p k = Some b" "q k = Some b'" "writtenBlock k b = writtenBlock k b'"
  have "map (plainItem c k) (enumerate 0 (blockItems b)) = map (plainItem c k) (enumerate 0 (blockItems b'))"
    by (rule map_enumerate_cong[where W = "\<lambda>ie. written k (fst ie) (snd ie)"
          and H = "\<lambda>i e. plainItem c k (i, e)", OF writtenBlock_eqD(2)[OF b(3)]])
       (simp add: plainItem_written[OF c, symmetric])
  then show ?thesis using b by (simp add: plainItems_def)
qed

lemma plainBlock_cong:
  assumes c: "stableCollector c" and eq: "writtenPage p = writtenPage q"
  shows "plainBlock c p k = plainBlock c q k"
  using writtenPage_cases[OF eq, of k] plainItems_cong[OF c eq, of k]
  by (auto simp: plainBlock_def plainCategory_def dest: writtenBlock_eqD(1))

lemma blockLinks_cong:
  assumes c: "stableCollector c" and eq: "writtenPage p = writtenPage q"
  shows "blockLinks c p k = blockLinks c q k"
  using writtenPage_cases[OF eq, of k] plainItems_cong[OF c eq, of k]
  by (auto simp: blockLinks_def)

lemma writtenPage_setGraphId:
  assumes pk: "p k = Some b" and i: "i < length (blockItems b)"
    and e: "written k i e = written k i (blockItems b ! i)"
  shows "writtenPage (setGraphId p k i e (itemIdentity k e i)) = writtenPage p"
proof
  fix k'
  show "writtenPage (setGraphId p k i e (itemIdentity k e i)) k' = writtenPage p k'"
  proof (cases "k' = k")
    case False
    then show ?thesis using pk by (simp add: writtenPage_def setGraphId_def)
  next
    case True
    have "map (\<lambda>ie. written k (fst ie) (snd ie))
            (enumerate 0 ((blockItems b)[i := e\<lparr>graphId := Some (itemIdentity k e i)\<rparr>]))
        = map (\<lambda>ie. written k (fst ie) (snd ie)) (enumerate 0 (blockItems b))"
      by (rule map_enumerate_update[OF i]) (simp add: written_idem e)
    then show ?thesis using pk True by (simp add: writtenPage_def setGraphId_def writtenBlock_def)
  qed
qed

lemma itemStep_plain:
  assumes c: "stableCollector c" and a: "plainIndexer a"
    and pk: "b_page st k = Some b" and i: "fst ie < length (blockItems b)"
    and e: "written k (fst ie) (snd ie) = written k (fst ie) (blockItems b ! fst ie)"
  shows "map forget (b_nodes (itemStep c a rnd k cx cy ie st))
           = map forget (b_nodes st) @ [plainItem c k ie]"
    and "b_links (itemStep c a rnd k cx cy ie st)
           = b_links st @ [\<lparr>source = Ident (''cat-'' @ k),
                 target = Ident (node_id (plainItem c k ie)), link_type = Branch\<rparr>]"
    and "map (apsnd forget) (b_index (itemStep c a rnd k cx cy ie st))
           = a (plainItem c k ie) (map (apsnd forget) (b_index st))"
    and "writtenPage (b_page (itemStep c a rnd k cx cy ie st)) = writtenPage (b_page st)"
proof -
  have idn: "node_id (c k (snd ie) (fst ie)) = itemIdentity k (snd ie) (fst ie)"
    using c by (simp add: stableCollector_def)
  show "map forget (b_nodes (itemStep c a rnd k cx cy ie st))
           = map forget (b_nodes st) @ [plainItem c k ie]"
    by (simp add: itemStep_def Let_def plainItem_def forget_def)
  show "b_links (itemStep c a rnd k cx cy ie st)
           = b_links st @ [\<lparr>source = Ident (''cat-'' @ k),
                 target = Ident (node_id (plainItem c k ie)), link_type = Branch\<rparr>]"
    by (simp add: itemStep_def Let_def plainItem_def forget_def)
  have "map (apsnd forget) (a n (b_index st)) = a (forget n) (map (apsnd forget) (b_index st))" for n
    using a by (simp add: plainIndexer_def)
  then show "map (apsnd forget) (b_index (itemStep c a rnd k cx cy ie st))
           = a (plainItem c k ie) (map (apsnd forget) (b_index st))"
    by (simp add: itemStep_def Let_def plainItem_def forget_def)
  have "b_page (itemStep c a rnd k cx cy ie st)
      = setGraphId (b_page st) k (fst ie) (snd ie) (itemIdentity k (snd ie) (fst ie))"
    by (simp add: itemStep_def Let_def idn)
  then show "writtenPage (b_page (itemStep c a rnd k cx cy ie st)) = writtenPage (b_page st)"
    using writtenPage_setGraphId[of "b_page st" k b "fst ie" "snd ie", OF pk i e] by simp
qed

lemma fold_itemStep_plain:
  assumes c: "stableCollector c" and a: "plainIndexer a" and p0: "p0 k = Some b0"
  shows "writtenPage (b_page st) = writtenPage p0 \<Longrightarrow>
         \<forall>ie \<in> set ies. fst ie < length (blockItems b0) \<and> snd ie = blockItems b0 ! fst ie \<Longrightarrow>
         map forget (b_nodes (fold (itemStep c a rnd k cx cy) ies st))
           = map forget (b_nodes st) @ map (plainItem c k) ies
       \<and> b_links (fold (itemStep c a rnd k cx cy) ies st)
           = b_links st @ map (\<lambda>n. \<lparr>source = Ident (''cat-'' @ k),
                 target = Ident (node_id n), link_type = Branch\<rparr>) (map (plainItem c k) ies)
       \<and> map (apsnd forget) (b_index (fold (itemStep c a rnd k cx cy) ies st))
           = fold a (map (plainItem c k) ies) (map (apsnd forget) (b_index st))
       \<and> writtenPage (b_page (fold (itemStep c a rnd k cx cy) ies st)) = writtenPage p0"
proof (induction ies arbitrary: st)
  case Nil
  then show ?case by simp
next
  case (Cons ie ies)
  from writtenPage_cases[OF Cons.prems(1), of k] p0
  obtain b where b: "b_page st k = Some b" "writtenBlock k b = writtenBlock k b0" by auto
  have ie: "fst ie < length (blockItems b0)" "snd ie = blockItems b0 ! fst ie"
    using Cons.prems(2) by simp_all
  have m: "map (\<lambda>ie. written k (fst ie) (snd ie)) (enumerate 0 (blockItems b))
         = map (\<lambda>ie. written k (fst ie) (snd ie)) (enumerate 0 (blockItems b0))"
    by (rule writtenBlock_eqD(2)[OF b(2)])
  then have "length (map (\<lambda>ie. written k (fst ie) (snd ie)) (enumerate 0 (blockItems b)))
         = length (map (\<lambda>ie. written k (fst ie) (snd ie)) (enumerate 0 (blockItems b0)))"
    by simp
  then have len: "length (blockItems b) = length (blockItems b0)" by simp
  have i: "fst ie < length (blockItems b)" using ie len by simp
  have "map (\<lambda>ie. written k (fst ie) (snd ie)) (enumerate 0 (blockItems b)) ! fst ie
         = map (\<lambda>ie. written k (fst ie) (snd ie)) (enumerate 0 (blockItems b0)) ! fst ie"
    using m by simp
  then have e: "written k (fst ie) (snd ie) = written k (fst ie) (blockItems b ! fst ie)"
    using i ie by (simp add: nth_enumerate_eq)
  note s = itemStep_plain[OF c a b(1) i e, of rnd cx cy]
  have "writtenPage (b_page (itemStep c a rnd k cx cy ie st)) = writtenPage p0"
    using s(4) Cons.prems(1) by simp
  from Cons.IH[OF this] Cons.prems(2)
  show ?case by (simp add: s(1) s(2) s(3))
qed

lemma categoryStep_plain:
  assumes c: "stableCollector c" and a: "plainIndexer a"
    and pg: "writtenPage (b_page st) = writtenPage pg"
  shows "map forget (b_nodes (categoryStep c a rnd centerX centerY ncat ic st))
           = map forget (b_nodes st) @ plainBlock c pg (snd ic)
       \<and> b_links (categoryStep c a rnd centerX centerY ncat ic st)
           = b_links st @ blockLinks c pg (snd ic)
       \<and> map (apsnd forget) (b_index (categoryStep c a rnd centerX centerY ncat ic st))
           = fold a (plainItems c pg (snd ic)) (map (apsnd forget) (b_index st))
       \<and> writtenPage (b_page (categoryStep c a rnd centerX centerY ncat ic st)) = writtenPage pg"
proof (cases "b_page st (snd ic)")
  case None
  then have "plainBlock c (b_page st) (snd ic) = []" "blockLinks c (b_page st) (snd ic) = []"
    "plainItems c (b_page st) (snd ic) = []"
    by (simp_all add: plainBlock_def blockLinks_def plainItems_def)
  then have "plainBlock c pg (snd ic) = []" "blockLinks c pg (snd ic) = []"
    "plainItems c pg (snd ic) = []"
    using plainBlock_cong[OF c pg] blockLinks_cong[OF c pg] plainItems_cong[OF c pg] by simp_all
  then show ?thesis using None pg by (simp add: categoryStep_def Let_def)
next
  case (Some block)
  define k where "k = snd ic"
  define cn where "cn = \<lparr>node_id = ''cat-'' @ k,
      label = orElse (map_option trim (sectionTitle block)) k, subtitle = [],
      node_type = Category, category = Some k,
      node_x = centerX + cos (real (fst ic) * ((pi * 2) / real ncat) - pi / 2) * CATEGORY_RADIUS,
      node_y = centerY + sin (real (fst ic) * ((pi * 2) / real ncat) - pi / 2) * CATEGORY_RADIUS,
      node_fx = None, node_fy = None,
      hidden = False, referenceId = [], fullText = [], linksTo = []\<rparr>"
  define st1 where "st1 = st\<lparr>b_nodes := b_nodes st @ [cn],
      b_links := b_links st @ [\<lparr>source = Ident ''center'', target = Ident (''cat-'' @ k),
                              link_type = Spine\<rparr>]\<rparr>"
  have step: "categoryStep c a rnd centerX centerY ncat ic st =
      fold (itemStep c a rnd k (node_x cn) (node_y cn)) (enumerate 0 (blockItems block)) st1"
    using Some by (simp add: categoryStep_def Let_def st1_def cn_def k_def)
  have bk: "b_page st k = Some block" using Some by (simp add: k_def)
  have p1: "writtenPage (b_page st1) = writtenPage (b_page st)" by (simp add: st1_def)
  have rng: "\<forall>ie \<in> set (enumerate 0 (blockItems block)).
       fst ie < length (blockItems block) \<and> snd ie = blockItems block ! fst ie"
    by (auto simp: in_set_enumerate_eq)
  note f = fold_itemStep_plain[OF c a bk p1 rng, of rnd "node_x cn" "node_y cn"]
  have fc: "forget cn = plainCategory k block"
    by (simp add: forget_def cn_def plainCategory_def)
  have items: "map (plainItem c k) (enumerate 0 (blockItems block)) = plainItems c (b_page st) k"
    using bk by (simp add: plainItems_def)
  have n: "map forget (b_nodes (categoryStep c a rnd centerX centerY ncat ic st))
           = map forget (b_nodes st) @ plainBlock c (b_page st) k"
    unfolding step using f bk by (simp add: st1_def fc plainBlock_def items)
  have l: "b_links (categoryStep c a rnd centerX centerY ncat ic st)
           = b_links st @ blockLinks c (b_page st) k"
    unfolding step using f bk by (simp add: st1_def blockLinks_def items)
  have x: "map (apsnd forget) (b_index (categoryStep c a rnd centerX centerY ncat ic st))
           = fold a (plainItems c (b_page st) k) (map (apsnd forget) (b_index st))"
    unfolding step using f by (simp add: st1_def items)
  have w: "writtenPage (b_page (categoryStep c a rnd centerX centerY ncat ic st)) = writtenPage pg"
    unfolding step using f pg by simp
  show ?thesis
    using n l x w plainBlock_cong[OF c pg, of k] blockLinks_cong[OF c pg, of k]
      plainItems_cong[OF c pg, of k]
    by (simp add: k_def)
qed

lemma fold_categoryStep_plain:
  assumes c: "stableCollector c" and a: "plainIndexer a"
  shows "writtenPage (b_page st) = writtenPage pg \<Longrightarrow>
       map forget (b_nodes (fold (categoryStep c a rnd centerX centerY ncat) ics st))
           = map forget (b_nodes st) @ concat (map (plainBlock c pg) (map snd ics))
       \<and> b_links (fold (categoryStep c a rnd centerX centerY ncat) ics st)
           = b_links st @ concat (map (blockLinks c pg) (map snd ics))
       \<and> map (apsnd forget) (b_index (fold (categoryStep c a rnd centerX centerY ncat) ics st))
           = fold a (concat (map (plainItems c pg) (map snd ics))) (map (apsnd forget) (b_index st))
       \<and> writtenPage (b_page (fold (categoryStep c a rnd centerX centerY ncat) ics st))
           = writtenPage pg"
proof (induction ics arbitrary: st)
  case Nil
  then show ?case by simp
next
  case (Cons ic ics)
  note s = categoryStep_plain[OF c a Cons.prems, of rnd centerX centerY ncat ic]
  from s have "writtenPage (b_page (categoryStep c a rnd centerX centerY ncat ic st)) = writtenPage pg"
    by simp
  from Cons.IH[OF this] s show ?case by simp
qed

lemma buildHierarchy_plain:
  assumes c: "stableCollector c" and a: "plainIndexer a"
  shows "map forget (b_nodes (buildHierarchy c a cfg rnd cont pg)) = plainNodes c cfg pg"
    and "b_links (buildHierarchy c a cfg rnd cont pg) = plainLinks c cfg pg"
    and "map (apsnd forget) (b_index (buildHierarchy c a cfg rnd cont pg)) = plainIndex a c cfg pg"
    and "writtenPage (b_page (buildHierarchy c a cfg rnd cont pg)) = writtenPage pg"
proof -
  define st0 where "st0 = \<lparr>b_nodes = [centerNode (halfWidth cont) (halfHeight cont)],
      b_links = [], b_index = [], b_page = pg, b_rand = 0\<rparr>"
  have "writtenPage (b_page st0) = writtenPage pg" by (simp add: st0_def)
  note f = fold_categoryStep_plain[OF c a this, of rnd "halfWidth cont" "halfHeight cont"
      "length cfg" "enumerate 0 cfg"]
  have b: "buildHierarchy c a cfg rnd cont pg
      = fold (categoryStep c a rnd (halfWidth cont) (halfHeight cont) (length cfg)) (enumerate 0 cfg) st0"
    by (simp add: buildHierarchy_def Let_def st0_def)
  have fc: "forget (centerNode (halfWidth cont) (halfHeight cont)) = forget (centerNode 0 0)"
    by (simp add: forget_def centerNode_def)
  show "map forget (b_nodes (buildHierarchy c a cfg rnd cont pg)) = plainNodes c cfg pg"
    unfolding b using f by (simp add: st0_def fc plainNodes_def)
  show "b_links (buildHierarchy c a cfg rnd cont pg) = plainLinks c cfg pg"
    unfolding b using f by (simp add: st0_def plainLinks_def)
  show "map (apsnd forget) (b_index (buildHierarchy c a cfg rnd cont pg)) = plainIndex a c cfg pg"
    unfolding b using f by (simp add: st0_def plainIndex_def)
  show "writtenPage (b_page (buildHierarchy c a cfg rnd cont pg)) = writtenPage pg"
    unfolding b using f by simp
qed














lemma plainNodes_item:
  assumes "n \<in> set (plainNodes c cfg pg)" and "node_type n = Item"
  shows "\<exists>k e i. n = forget ((c k e i)\<lparr>hidden := True\<rparr>)"
proof -
  have "n \<noteq> forget (centerNode 0 0)" using assms(2) by (auto simp: forget_def centerNode_def)
  then obtain k where k: "n \<in> set (plainBlock c pg k)"
    using assms(1) by (auto simp: plainNodes_def)
  then obtain b where b: "pg k = Some b" "n = plainCategory k b \<or> n \<in> set (plainItems c pg k)"
    by (cases "pg k") (auto simp: plainBlock_def)
  have "n \<noteq> plainCategory k b" using assms(2) by (auto simp: plainCategory_def)
  then have "n \<in> set (plainItems c pg k)" using b by simp
  then show ?thesis using b(1) by (auto simp: plainItems_def plainItem_def)
qed


lemma find_Some_mem: "find P xs = Some x \<Longrightarrow> x \<in> set xs \<and> P x"
  by (induction xs) (auto split: if_splits)



lemma mapGet_map: "mapGet (map (apsnd f) m) k = map_option f (mapGet m k)"
  by (induction m) (auto simp: mapGet_def)

lemma mapKeys_map: "mapKeys (map (apsnd f) m) = mapKeys m"
  by (simp add: mapKeys_def comp_def)

lemma forget_fields:
  "node_id (forget n) = node_id n" "node_type (forget n) = node_type n"
  "category (forget n) = category n" "linksTo (forget n) = linksTo n"
  "fullText (forget n) = fullText n" "referenceId (forget n) = referenceId n"
  "hidden (forget n) = hidden n" "label (forget n) = label n"
  by (simp_all add: forget_def)

lemma case_map_option:
  "(case map_option f v of None \<Rightarrow> a | Some y \<Rightarrow> g y) = (case v of None \<Rightarrow> a | Some y \<Rightarrow> g (f y))"
  by (cases v) simp_all

lemma referenceLinksOf_forget:
  "referenceLinksOf (map (apsnd forget) index) (forget n) = referenceLinksOf index n"
  by (simp add: referenceLinksOf_def mapGet_map forget_fields case_map_option
      cong: option.case_cong if_cong)

lemma referenceLinksOf_auto_forget:
  "referenceLinksOf_auto rx (map (apsnd forget) index) (forget n) = referenceLinksOf_auto rx index n"
  by (simp add: referenceLinksOf_auto_def mapGet_map mapKeys_map forget_fields case_map_option
      cong: option.case_cong if_cong)

lemma buildGraphData_plain:
  shows "map forget (nodes (fst (buildGraphData rnd cont pg))) = nodes (plainGraph pg)"
    and "links (fst (buildGraphData rnd cont pg)) = links (plainGraph pg)"
    and "writtenPage (snd (buildGraphData rnd cont pg)) = writtenPage pg"
proof -
  define st where "st = buildHierarchy collectItemData indexNode sectionConfig rnd cont pg"
  note h = buildHierarchy_plain[OF stable_manual plainIndexer_manual, of sectionConfig rnd cont pg,
      folded st_def]
  show "map forget (nodes (fst (buildGraphData rnd cont pg))) = nodes (plainGraph pg)"
    using h(1) by (simp add: buildGraphData_def Let_def plainGraph_def st_def)
  have "concat (map (referenceLinksOf (b_index st)) (b_nodes st))
      = concat (map (referenceLinksOf (map (apsnd forget) (b_index st))) (map forget (b_nodes st)))"
    by (simp add: comp_def referenceLinksOf_forget)
  then show "links (fst (buildGraphData rnd cont pg)) = links (plainGraph pg)"
    using h by (simp add: buildGraphData_def Let_def plainGraph_def st_def[symmetric])
  show "writtenPage (snd (buildGraphData rnd cont pg)) = writtenPage pg"
    using h(4) by (simp add: buildGraphData_def Let_def st_def)
qed

lemma buildGraphData_auto_plain:
  shows "map forget (nodes (fst (buildGraphData_auto rx rnd cont pg))) = nodes (plainGraph_auto rx pg)"
    and "links (fst (buildGraphData_auto rx rnd cont pg)) = links (plainGraph_auto rx pg)"
    and "writtenPage (snd (buildGraphData_auto rx rnd cont pg)) = writtenPage pg"
proof -
  define st where "st = buildHierarchy collectItemData_auto indexNode_auto sectionConfig_auto rnd cont pg"
  note h = buildHierarchy_plain[OF stable_auto plainIndexer_auto, of sectionConfig_auto rnd cont pg,
      folded st_def]
  show "map forget (nodes (fst (buildGraphData_auto rx rnd cont pg))) = nodes (plainGraph_auto rx pg)"
    using h(1) by (simp add: buildGraphData_auto_def Let_def plainGraph_auto_def st_def)
  have "concat (map (referenceLinksOf_auto rx (b_index st)) (b_nodes st))
      = concat (map (referenceLinksOf_auto rx (map (apsnd forget) (b_index st))) (map forget (b_nodes st)))"
    by (simp add: comp_def referenceLinksOf_auto_forget)
  then show "links (fst (buildGraphData_auto rx rnd cont pg)) = links (plainGraph_auto rx pg)"
    using h by (simp add: buildGraphData_auto_def Let_def plainGraph_auto_def st_def[symmetric])
  show "writtenPage (snd (buildGraphData_auto rx rnd cont pg)) = writtenPage pg"
    using h(4) by (simp add: buildGraphData_auto_def Let_def st_def)
qed

lemma plain_cong:
  assumes c: "stableCollector c" and eq: "writtenPage p = writtenPage q"
  shows "plainNodes c cfg p = plainNodes c cfg q"
    and "plainLinks c cfg p = plainLinks c cfg q"
    and "plainIndex a c cfg p = plainIndex a c cfg q"
proof -
  have "plainBlock c p = plainBlock c q" "blockLinks c p = blockLinks c q"
    "plainItems c p = plainItems c q"
    using plainBlock_cong[OF c eq] blockLinks_cong[OF c eq] plainItems_cong[OF c eq] by auto
  then show "plainNodes c cfg p = plainNodes c cfg q"
    and "plainLinks c cfg p = plainLinks c cfg q"
    and "plainIndex a c cfg p = plainIndex a c cfg q"
    by (simp_all add: plainNodes_def plainLinks_def plainIndex_def)
qed

lemma plainGraph_cong:
  assumes "writtenPage p = writtenPage q"
  shows "plainGraph p = plainGraph q" and "plainGraph_auto rx p = plainGraph_auto rx q"
  using plain_cong[OF stable_manual assms] plain_cong[OF stable_auto assms]
  by (simp_all add: plainGraph_def plainGraph_auto_def)

lemma node_id_forget: "map node_id (map forget ns) = map node_id ns"
  by (simp add: forget_fields)

lemma expectedIdentity_eq: "expectedIdentity k e i = itemIdentity k e i"
  by (simp add: expectedIdentity_def itemIdentity_def derivedIdentity_def orElse_def
      split: option.splits)

lemma plainNodes_ids:
  assumes c: "stableCollector c"
  shows "map node_id (plainNodes c cfg pg) = expectedIdentities cfg pg"
proof -
  have i: "node_id (plainItem c k ie) = expectedIdentity k (snd ie) (fst ie)" for k ie
    using c by (simp add: plainItem_def forget_def stableCollector_def expectedIdentity_eq)
  have "map node_id (plainBlock c pg k)
      = (case pg k of None \<Rightarrow> [] | Some b \<Rightarrow> (''cat-'' @ k) #
           map (\<lambda>ie. expectedIdentity k (snd ie) (fst ie)) (enumerate 0 (blockItems b)))" for k
    by (cases "pg k") (simp_all add: plainBlock_def plainItems_def plainCategory_def i comp_def)
  then show ?thesis
    by (simp add: plainNodes_def expectedIdentities_def map_concat comp_def forget_def centerNode_def)
qed

text \<open>
  Claim C6. Building again from the page as the first build left it (each content block
  now carries the identity written back to it), with any other random numbers and container,
  yields the same node identities and the same links, in both revisions; and the identities
  are those expected from the page: the explicit identity of a block when it has a
  non-empty one, otherwise category key, slug of the label and position.
\<close>

theorem rebuild_same_identities:
  "map node_id (nodes (fst (buildGraphData rnd' cont' (snd (buildGraphData rnd cont pg)))))
     = map node_id (nodes (fst (buildGraphData rnd cont pg)))
   \<and> links (fst (buildGraphData rnd' cont' (snd (buildGraphData rnd cont pg))))
     = links (fst (buildGraphData rnd cont pg))
   \<and> map node_id (nodes (fst (buildGraphData_auto rx rnd' cont' (snd (buildGraphData_auto rx rnd cont pg)))))
     = map node_id (nodes (fst (buildGraphData_auto rx rnd cont pg)))
   \<and> links (fst (buildGraphData_auto rx rnd' cont' (snd (buildGraphData_auto rx rnd cont pg))))
     = links (fst (buildGraphData_auto rx rnd cont pg))
   \<and> map node_id (nodes (fst (buildGraphData rnd cont pg))) = expectedIdentities sectionConfig pg
   \<and> map node_id (nodes (fst (buildGraphData_auto rx rnd cont pg)))
     = expectedIdentities sectionConfig_auto pg"
proof -
  have w: "writtenPage (snd (buildGraphData rnd cont pg)) = writtenPage pg"
    by (rule buildGraphData_plain(3))
  have wa: "writtenPage (snd (buildGraphData_auto rx rnd cont pg)) = writtenPage pg"
    by (rule buildGraphData_auto_plain(3))
  have n: "map node_id (nodes (fst (buildGraphData r c p))) = map node_id (nodes (plainGraph p))" for r c p
    using arg_cong[OF buildGraphData_plain(1)[of r c p], of "map node_id"]
    by (simp only: node_id_forget)
  have na: "map node_id (nodes (fst (buildGraphData_auto rx r c p))) = map node_id (nodes (plainGraph_auto rx p))"
    for r c p
    using arg_cong[OF buildGraphData_auto_plain(1)[of rx r c p], of "map node_id"]
    by (simp only: node_id_forget)
  show ?thesis
    unfolding n na buildGraphData_plain(2) buildGraphData_auto_plain(2)
      plainGraph_cong(1)[OF w] plainGraph_cong(2)[OF wa]
    by (simp add: plainGraph_def plainGraph_auto_def plainNodes_ids[OF stable_manual]
        plainNodes_ids[OF stable_auto])
qed

lemma digitChar_cases:
  assumes "d < 10"
  shows "digitChar d \<noteq> CHR ''-'' \<and> digitValue (digitChar d) = d"
proof -
  have "d \<in> {0, 1, 2, 3, 4, 5, 6, 7, 8, 9}" using assms by auto
  then show ?thesis
    by (auto simp: digitChar_def digitValue_def upt_conv_Cons)
qed

lemma numberToString_no_hyphen: "CHR ''-'' \<notin> set (numberToString n)"
proof (induction n rule: numberToString.induct)
  case (1 n)
  show ?case
  proof (cases "n < 10")
    case True
    then show ?thesis using digitChar_cases[of n] by (subst numberToString.simps) auto
  next
    case False
    then show ?thesis
      using 1 digitChar_cases[of "n mod 10"] by (subst numberToString.simps) auto
  qed
qed

lemma parseNumber_numberToString: "parseNumber (numberToString n) = n"
proof (induction n rule: numberToString.induct)
  case (1 n)
  show ?case
  proof (cases "n < 10")
    case True
    then show ?thesis using digitChar_cases[of n]
      by (subst numberToString.simps) (simp add: parseNumber_def)
  next
    case False
    then have "parseNumber (numberToString (n div 10)) = n div 10" using 1 by simp
    then show ?thesis
      using False digitChar_cases[of "n mod 10"]
      by (subst numberToString.simps) (simp add: parseNumber_def)
  qed
qed

lemma numberToString_inj: "numberToString i = numberToString j \<Longrightarrow> i = j"
  by (metis parseNumber_numberToString)

lemma firstSegment_key:
  assumes "CHR ''-'' \<notin> set k"
  shows "firstSegment (k @ CHR ''-'' # r) = k"
  unfolding firstSegment_def using assms by (subst takeWhile_append2) auto

lemma lastSegment_number: "lastSegment (r @ CHR ''-'' # numberToString i) = numberToString i"
proof -
  have "takeWhile (\<lambda>c. c \<noteq> CHR ''-'') (rev (numberToString i) @ CHR ''-'' # rev r)
      = rev (numberToString i)"
    using numberToString_no_hyphen[of i] by (subst takeWhile_append2) auto
  then show ?thesis by (simp add: lastSegment_def)
qed

lemma derived_segments:
  assumes "CHR ''-'' \<notin> set k"
  shows "firstSegment (derivedIdentity k e i) = k"
    and "lastSegment (derivedIdentity k e i) = numberToString i"
proof -
  show "firstSegment (derivedIdentity k e i) = k"
    using firstSegment_key[OF assms] by (simp add: derivedIdentity_def)
  have "derivedIdentity k e i = (k @ ''-'' @ slugify (itemLabel e)) @ CHR ''-'' # numberToString i"
    by (simp add: derivedIdentity_def)
  then show "lastSegment (derivedIdentity k e i) = numberToString i"
    by (simp only: lastSegment_number)
qed

lemma derivedBlock_owner:
  assumes k: "CHR ''-'' \<notin> set k" "k \<noteq> ''cat''" and x: "x \<in> set (derivedBlock pg k)"
  shows "owner x = k"
proof -
  from x obtain b where b: "pg k = Some b" by (cases "pg k") (auto simp: derivedBlock_def)
  from x b consider "x = ''cat-'' @ k" | e i where "x = derivedIdentity k e i"
    by (auto simp: derivedBlock_def)
  then show ?thesis
  proof cases
    case 1
    have "firstSegment (''cat'' @ CHR ''-'' # k) = ''cat''"
      by (rule firstSegment_key) simp
    then show ?thesis using 1 by (simp add: owner_def)
  next
    case 2
    then show ?thesis using derived_segments(1)[OF k(1)] k(2) by (simp add: owner_def)
  qed
qed

lemma distinct_by_image: "distinct (map h ys) \<Longrightarrow> distinct ys"
  by (simp add: distinct_map)

lemma derivedBlock_distinct:
  assumes k: "CHR ''-'' \<notin> set k" "k \<noteq> ''cat''"
  shows "distinct (derivedBlock pg k)"
proof (cases "pg k")
  case None
  then show ?thesis by (simp add: derivedBlock_def)
next
  case (Some b)
  define ys where "ys = map (\<lambda>ie. derivedIdentity k (snd ie) (fst ie)) (enumerate 0 (blockItems b))"
  have "map (\<lambda>y. parseNumber (lastSegment y)) ys = map fst (enumerate 0 (blockItems b))"
    by (simp add: ys_def derived_segments(2)[OF k(1)] parseNumber_numberToString comp_def)
  then have "distinct (map (\<lambda>y. parseNumber (lastSegment y)) ys)" by simp
  then have d: "distinct ys" by (rule distinct_by_image)
  have "firstSegment (''cat'' @ CHR ''-'' # k) = ''cat''"
    by (rule firstSegment_key) simp
  moreover have "firstSegment y = k" if "y \<in> set ys" for y
    using that derived_segments(1)[OF k(1)] by (auto simp: ys_def)
  ultimately have "''cat-'' @ k \<notin> set ys" using k(2) by auto
  then show ?thesis using d Some by (simp add: derivedBlock_def ys_def)
qed

lemma concat_owner_distinct:
  assumes own: "\<And>k x. k \<in> set ks \<Longrightarrow> x \<in> set (F k) \<Longrightarrow> owner x = k"
    and dis: "\<And>k. k \<in> set ks \<Longrightarrow> distinct (F k)"
  shows "distinct ks \<Longrightarrow> distinct (concat (map F ks))"
  using own dis
proof (induction ks)
  case Nil
  then show ?case by simp
next
  case (Cons k ks)
  have "set (F k) \<inter> set (concat (map F ks)) = {}"
  proof (rule ccontr)
    assume "set (F k) \<inter> set (concat (map F ks)) \<noteq> {}"
    then obtain x k' where x: "x \<in> set (F k)" "k' \<in> set ks" "x \<in> set (F k')" by auto
    then have "owner x = k" "owner x = k'" using Cons.prems(2)[of k x] Cons.prems(2)[of k' x] by auto
    then show False using x(2) Cons.prems(1) by auto
  qed
  moreover have "distinct (concat (map F ks))"
    using Cons.IH Cons.prems by auto
  ultimately show ?case using Cons.prems(3)[of k] by simp
qed

lemma derivedIdentities_distinct:
  assumes "plainKeys cfg"
  shows "distinct (derivedIdentities cfg pg)"
proof -
  have k: "CHR ''-'' \<notin> set k" "k \<noteq> ''cat''" "k \<noteq> ''center''" if "k \<in> set cfg" for k
    using assms that by (auto simp: plainKeys_def)
  have d: "distinct (concat (map (derivedBlock pg) cfg))"
    using assms k derivedBlock_owner derivedBlock_distinct
    by (intro concat_owner_distinct) (auto simp: plainKeys_def)
  have "owner ''center'' = ''center''" by (simp add: owner_def firstSegment_def)
  then have "''center'' \<notin> set (concat (map (derivedBlock pg) cfg))"
    using k derivedBlock_owner by fastforce
  then show ?thesis using d by (simp add: derivedIdentities_def)
qed

lemma expected_derived:
  assumes "noExplicitIdentity pg"
  shows "expectedIdentities cfg pg = derivedIdentities cfg pg"
proof -
  have "(case pg k of None \<Rightarrow> []
         | Some b \<Rightarrow> (''cat-'' @ k) #
             map (\<lambda>ie. expectedIdentity k (snd ie) (fst ie)) (enumerate 0 (blockItems b)))
        = derivedBlock pg k" for k
  proof (cases "pg k")
    case None
    then show ?thesis by (simp add: derivedBlock_def)
  next
    case (Some b)
    have "graphId (snd ie) = None" if "ie \<in> set (enumerate 0 (blockItems b))" for ie
    proof -
      have "snd ie \<in> set (blockItems b)"
      proof -
        from that have "fst ie < length (blockItems b)" "blockItems b ! fst ie = snd ie"
          by (auto simp: in_set_enumerate_eq)
        then show ?thesis using nth_mem[of "fst ie" "blockItems b"] by simp
      qed
      then show ?thesis using assms Some by (auto simp: noExplicitIdentity_def)
    qed
    then have "map (\<lambda>ie. expectedIdentity k (snd ie) (fst ie)) (enumerate 0 (blockItems b))
        = map (\<lambda>ie. derivedIdentity k (snd ie) (fst ie)) (enumerate 0 (blockItems b))"
      by (intro map_cong) (simp_all add: expectedIdentity_def)
    then show ?thesis using Some by (simp add: derivedBlock_def)
  qed
  then show ?thesis by (simp add: expectedIdentities_def derivedIdentities_def)
qed

lemma plainKeys_config: "plainKeys sectionConfig" "plainKeys sectionConfig_auto"
  by (simp_all add: plainKeys_def sectionConfig_def sectionConfig_auto_def)

text \<open>
  Claim C10. When no content block carries an explicit identity, the node identities of a
  build are \<open>center\<close>, \<open>cat-\<close> followed by the key for each category present, and key, slug
  and position for each item; and they are pairwise distinct.
\<close>

theorem identities_distinct:
  assumes "noExplicitIdentity pg"
  shows "map node_id (nodes (fst (buildGraphData rnd cont pg))) = derivedIdentities sectionConfig pg
       \<and> distinct (map node_id (nodes (fst (buildGraphData rnd cont pg))))
       \<and> map node_id (nodes (fst (buildGraphData_auto rx rnd cont pg)))
           = derivedIdentities sectionConfig_auto pg
       \<and> distinct (map node_id (nodes (fst (buildGraphData_auto rx rnd cont pg))))"
proof -
  have a: "map node_id (nodes (fst (buildGraphData rnd cont pg))) = derivedIdentities sectionConfig pg"
    using arg_cong[OF buildGraphData_plain(1)[of rnd cont pg], of "map node_id"]
    by (simp only: node_id_forget plainGraph_def graph.simps plainNodes_ids[OF stable_manual]
        expected_derived[OF assms])
  have b: "map node_id (nodes (fst (buildGraphData_auto rx rnd cont pg)))
           = derivedIdentities sectionConfig_auto pg"
    using arg_cong[OF buildGraphData_auto_plain(1)[of rx rnd cont pg], of "map node_id"]
    by (simp only: node_id_forget plainGraph_auto_def graph.simps plainNodes_ids[OF stable_auto]
        expected_derived[OF assms])
  show ?thesis
    unfolding a b using derivedIdentities_distinct[OF plainKeys_config(1)]
      derivedIdentities_distinct[OF plainKeys_config(2)] by simp
qed

lemma twinPage_plain: "noExplicitIdentity twinPage"
  by (auto simp: noExplicitIdentity_def twinPage_def contentBlock_def split: if_splits)

lemma twinPage_ids:
  "derivedIdentities sectionConfig twinPage = [''center'', ''cat-work'', ''work-acme-0'', ''work-acme-1'']"
  by code_simp

text \<open>
  Two content blocks with the same label in one category receive different identities.
\<close>

theorem identities_distinct_witness:
  "noExplicitIdentity twinPage
   \<and> map node_id (nodes (fst (buildGraphData fixedRandom None twinPage)))
       = [''center'', ''cat-work'', ''work-acme-0'', ''work-acme-1'']
   \<and> distinct (map node_id (nodes (fst (buildGraphData fixedRandom None twinPage))))"
  using identities_distinct[OF twinPage_plain, of fixedRandom None] twinPage_plain twinPage_ids
  by simp





lemma example_nodes:
  "map node_type (nodes (plainGraph examplePage))
     = [Center, Category, Item, Item, Item, Category, Item, Item]"
  by code_simp

lemma example_links:
  "map link_type (links (plainGraph examplePage))
     = [Spine, Branch, Branch, Branch, Spine, Branch, Branch, Reference]"
  by code_simp

text \<open>
  The example page of the specification (three work items, two project items, one
  cross-reference) yields five item nodes and eight links, so the statements about items
  and links are not empty.
\<close>

theorem buildGraphData_wellFormed_witness:
  "wellFormedGraph (fst (buildGraphData_auto wholeWordTest fixedRandom None examplePage))
   \<and> wellFormedGraph (fst (buildGraphData fixedRandom None examplePage))
   \<and> map node_type (nodes (fst (buildGraphData fixedRandom None examplePage)))
       = [Center, Category, Item, Item, Item, Category, Item, Item]
   \<and> map link_type (links (fst (buildGraphData fixedRandom None examplePage)))
       = [Spine, Branch, Branch, Branch, Spine, Branch, Branch, Reference]"
proof -
  have "map node_type (map forget (nodes (fst (buildGraphData fixedRandom None examplePage))))
      = [Center, Category, Item, Item, Item, Category, Item, Item]"
    unfolding buildGraphData_plain(1) by (rule example_nodes)
  then have n: "map node_type (nodes (fst (buildGraphData fixedRandom None examplePage)))
      = [Center, Category, Item, Item, Item, Category, Item, Item]"
    by (simp add: forget_fields comp_def)
  show ?thesis
    using buildGraphData_wellFormed[of wholeWordTest fixedRandom None examplePage] n example_links
    by (simp add: buildGraphData_plain(2))
qed

section \<open>The running graph: proofs\<close>

lemma find_keys:
  assumes "map nodeKey ns = map nodeKey ms"
  shows "map_option nodeKey (find (\<lambda>n. node_id n = x) ns)
       = map_option nodeKey (find (\<lambda>n. node_id n = x) ms)"
  using assms
proof (induction ns arbitrary: ms)
  case Nil
  then show ?case by simp
next
  case (Cons n ns)
  then obtain m ms' where ms: "ms = m # ms'" by (cases ms) auto
  with Cons.prems have k: "nodeKey n = nodeKey m" "map nodeKey ns = map nodeKey ms'" by auto
  then have "node_id n = node_id m" by (simp add: nodeKey_def)
  then show ?case using Cons.IH[OF k(2)] k(1) by (simp add: ms)
qed

lemma endNode_keys:
  assumes "map nodeKey ns = map nodeKey ms"
  shows "map_option nodeKey (endNode ns e) = map_option nodeKey (endNode ms e)"
proof (cases e)
  case (Ident x)
  then show ?thesis using find_keys[OF assms] by (simp add: endNode_def)
next
  case (Obj i)
  have len: "length ns = length ms" using assms by (metis length_map)
  show ?thesis
  proof (cases "i < length ns")
    case True
    then have "map nodeKey ns ! i = map nodeKey ms ! i" using assms by simp
    then show ?thesis using True len Obj by (simp add: endNode_def)
  next
    case False
    then show ?thesis using len Obj by (simp add: endNode_def)
  qed
qed

lemma endNode_keyD:
  assumes k: "map nodeKey ns = map nodeKey ms" and e: "endNode ns e = Some t"
  shows "\<exists>u. endNode ms e = Some u \<and> nodeKey u = nodeKey t"
  using endNode_keys[OF k, of e] e by (cases "endNode ms e") auto

lemma visibilityInvariant_keys:
  assumes k: "map nodeKey (v_nodes s') = map nodeKey (v_nodes s)"
    and l: "v_links s' = v_links s" and inv: "visibilityInvariant s"
  shows "visibilityInvariant s'"
  unfolding visibilityInvariant_def
proof (intro ballI conjI impI allI)
  fix le t
  assume le: "le \<in> set (v_links s')" "link_type (datum le) = Branch"
    and t: "endNode (v_nodes s') (target (datum le)) = Some t \<and> node_type t = Item"
  from endNode_keyD[OF k] t obtain u where u: "endNode (v_nodes s) (target (datum le)) = Some u"
    "nodeKey u = nodeKey t" by blast
  then have "node_type u = Item" "hidden u = hidden t" using t by (auto simp: nodeKey_def)
  then show "(strokeOpacity le > 0) = (\<not> hidden t)"
    using inv le u(1) unfolding visibilityInvariant_def l by auto
next
  fix le a b
  assume le: "le \<in> set (v_links s')" "link_type (datum le) = Reference"
    and ab: "endNode (v_nodes s') (source (datum le)) = Some a \<and> node_type a = Item
           \<and> endNode (v_nodes s') (target (datum le)) = Some b \<and> node_type b = Item"
  from endNode_keyD[OF k] ab obtain u where u: "endNode (v_nodes s) (source (datum le)) = Some u"
    "nodeKey u = nodeKey a" by blast
  from endNode_keyD[OF k] ab obtain w where w: "endNode (v_nodes s) (target (datum le)) = Some w"
    "nodeKey w = nodeKey b" by blast
  have "node_type u = Item" "hidden u = hidden a" "node_type w = Item" "hidden w = hidden b"
    using ab u(2) w(2) by (auto simp: nodeKey_def)
  then show "(strokeOpacity le > 0) = (\<not> hidden a \<and> \<not> hidden b)"
    using inv le u(1) w(1) unfolding visibilityInvariant_def l by auto
qed

lemma visibilityInvariant_updated:
  assumes "v_links s' = map (updateLink (v_nodes s')) ls"
  shows "visibilityInvariant s'"
  unfolding visibilityInvariant_def assms
  by (auto simp: updateLink_def branchOpacity_def referenceOpacity_def split: link_type.splits)

subsection \<open>What each operation changes\<close>

lemma zoomToFit_cases: "\<exists>t. fst (zoomToFit s) = s\<lparr>zoomTransform := t\<rparr>"
proof (cases "v_container s")
  case None
  then have "fst (zoomToFit s) = s\<lparr>zoomTransform := zoomTransform s\<rparr>"
    by (simp add: zoomToFit_def)
  then show ?thesis by blast
next
  case (Some c)
  then have "fst (zoomToFit s) = s\<lparr>zoomTransform := frame c (mainNodes (v_nodes s)) 80 1\<rparr>"
    by (simp add: zoomToFit_def)
  then show ?thesis by blast
qed

lemma zoomToVisibleNodes_cases: "\<exists>t. fst (zoomToVisibleNodes s) = s\<lparr>zoomTransform := t\<rparr>"
proof (cases "v_container s")
  case None
  then have "fst (zoomToVisibleNodes s) = s\<lparr>zoomTransform := zoomTransform s\<rparr>"
    by (simp add: zoomToVisibleNodes_def)
  then show ?thesis by blast
next
  case (Some c)
  show ?thesis
  proof (cases "visibleNodes (v_nodes s) = []")
    case True
    then have "fst (zoomToVisibleNodes s) = s\<lparr>zoomTransform := zoomTransform s\<rparr>"
      using Some by (simp add: zoomToVisibleNodes_def)
    then show ?thesis by blast
  next
    case False
    then have "fst (zoomToVisibleNodes s)
        = s\<lparr>zoomTransform := frame c (visibleNodes (v_nodes s)) 100 (3 / 2)\<rparr>"
      using Some by (simp add: zoomToVisibleNodes_def)
    then show ?thesis by blast
  qed
qed

lemma recenter_cases: "\<exists>t. fst (recenter s) = s\<lparr>zoomTransform := t\<rparr>"
  using zoomToFit_cases[of s] zoomToVisibleNodes_cases[of s] by (simp add: recenter_def)

lemma toggleSubgraph_cases:
  "\<exists>t. fst (toggleSubgraph key s) = (toggled key s)\<lparr>zoomTransform := t\<rparr>"
proof -
  have "toggleSubgraph key s
      = (if truthyKey (effectiveKey s key) then zoomToVisibleNodes (toggled key s)
         else zoomToFit (toggled key s))"
    by (simp add: toggleSubgraph_def Let_def effectiveKey_def toggled_def toggledNodes_def
        zoomToCategory_def)
  then show ?thesis
    using zoomToFit_cases[of "toggled key s"] zoomToVisibleNodes_cases[of "toggled key s"]
    by (cases "truthyKey (effectiveKey s key)") auto
qed

lemma keys_update:
  assumes "nodeKey (g (ns ! i)) = nodeKey (ns ! i)"
  shows "map nodeKey (ns[i := g (ns ! i)]) = map nodeKey ns"
proof (cases "i < length ns")
  case True
  then show ?thesis using assms by (simp add: map_update list_update_same_conv)
next
  case False
  then show ?thesis by (simp add: list_update_beyond)
qed

lemma dragStart_keys: "map nodeKey (v_nodes (dragStart i ex ey s)) = map nodeKey (v_nodes s)"
  unfolding dragStart_def
  using keys_update[of "\<lambda>n. n\<lparr>node_fx := Some (node_x n), node_fy := Some (node_y n)\<rparr>" "v_nodes s" i]
  by (simp add: nodeKey_def)

lemma dragMove_keys: "map nodeKey (v_nodes (dragMove i ex ey s)) = map nodeKey (v_nodes s)"
  unfolding dragMove_def Let_def
  using keys_update[of "\<lambda>n. n\<lparr>node_fx := Some ex, node_fy := Some ey\<rparr>" "v_nodes s" i]
  by (simp add: nodeKey_def split: option.splits)

lemma dragEnd_keys: "map nodeKey (v_nodes (dragEnd i s)) = map nodeKey (v_nodes s)"
  unfolding dragEnd_def Let_def
  using keys_update[of "\<lambda>n. n\<lparr>node_fx := None, node_fy := None\<rparr>" "v_nodes s" i]
  by (simp add: nodeKey_def)

lemma reshuffleNode_keys:
  "map nodeKey (snd (reshuffleNode rnd cx cy n acc)) = map nodeKey (snd acc) @ [nodeKey n]"
  by (cases "node_type n") (simp_all add: reshuffleNode_def Let_def nodeKey_def)

lemma fold_reshuffle_keys:
  "map nodeKey (snd (fold (reshuffleNode rnd cx cy) ns acc)) = map nodeKey (snd acc) @ map nodeKey ns"
  by (induction ns arbitrary: acc) (simp_all add: reshuffleNode_keys)

lemma reshuffle_keys: "map nodeKey (v_nodes (reshuffleGraph rnd s)) = map nodeKey (v_nodes s)"
  by (simp add: reshuffleGraph_def fold_reshuffle_keys)

lemma pinFirstCenter_keys: "map nodeKey (pinFirstCenter w h ns) = map nodeKey ns"
  by (induction ns) (simp_all add: nodeKey_def)

lemma resize_keys: "map nodeKey (v_nodes (resize w h s)) = map nodeKey (v_nodes s)"
  by (simp add: resize_def pinFirstCenter_keys)

lemma map_snd_enum: "map (\<lambda>p. f (snd p)) (enumerate k xs) = map f xs"
  by (induction xs arbitrary: k) simp_all

lemma nodeKey_position: "nodeKey (n\<lparr>node_x := a, node_y := b\<rparr>) = nodeKey n"
  by (simp add: nodeKey_def)

lemma tick_keys: "map nodeKey (v_nodes (tick pos s)) = map nodeKey (v_nodes s)"
  by (simp add: tick_def comp_def case_prod_beta nodeKey_position map_snd_enum[of nodeKey])

subsection \<open>The visibility invariant in the third revision\<close>

lemma visibilityInvariant_fields:
  assumes "v_nodes s' = v_nodes s" and "v_links s' = v_links s"
  shows "visibilityInvariant s' = visibilityInvariant s"
  by (simp add: visibilityInvariant_def assms)

lemma visibilityInvariant_zoom:
  "visibilityInvariant (s\<lparr>zoomTransform := t\<rparr>) = visibilityInvariant s"
  by (rule visibilityInvariant_fields) simp_all

lemma find_map_id:
  assumes "\<And>n. node_id (f n) = node_id n"
  shows "find (\<lambda>n. node_id n = x) (map f ns) = map_option f (find (\<lambda>n. node_id n = x) ns)"
  by (induction ns) (simp_all add: assms)

lemma endNode_map:
  assumes "\<And>n. node_id (f n) = node_id n"
  shows "endNode (map f ns) e = map_option f (endNode ns e)"
  by (cases e) (simp_all add: endNode_def find_map_id[OF assms])

lemma visibilityInvariant_allHidden:
  assumes n: "v_nodes s' = map (\<lambda>n. if node_type n = Item then n\<lparr>hidden := True\<rparr> else n) ns"
    and l: "v_links s' = map (\<lambda>le. if link_type (datum le) = Branch \<or> link_type (datum le) = Reference
                                      then le\<lparr>strokeOpacity := 0\<rparr> else le) ls"
  shows "visibilityInvariant s'"
proof -
  have h: "hidden t" if "endNode (v_nodes s') e = Some t" "node_type t = Item" for e t
  proof -
    have "endNode (v_nodes s') e
        = map_option (\<lambda>n. if node_type n = Item then n\<lparr>hidden := True\<rparr> else n) (endNode ns e)"
      unfolding n by (rule endNode_map) simp
    then have "map_option (\<lambda>n. if node_type n = Item then n\<lparr>hidden := True\<rparr> else n) (endNode ns e)
        = Some t"
      using that(1) by simp
    then obtain u where "t = (if node_type u = Item then u\<lparr>hidden := True\<rparr> else u)"
      by (auto simp: map_option_eq_Some)
    then show ?thesis using that(2) by (cases "node_type u = Item") auto
  qed
  show ?thesis
    unfolding visibilityInvariant_def
  proof (intro ballI conjI impI allI)
    fix le t
    assume le: "le \<in> set (v_links s')" "link_type (datum le) = Branch"
      and t: "endNode (v_nodes s') (target (datum le)) = Some t \<and> node_type t = Item"
    have "strokeOpacity le = 0" using le unfolding l by (auto split: if_splits)
    then show "(strokeOpacity le > 0) = (\<not> hidden t)" using h t by auto
  next
    fix le a b
    assume le: "le \<in> set (v_links s')" "link_type (datum le) = Reference"
      and ab: "endNode (v_nodes s') (source (datum le)) = Some a \<and> node_type a = Item
           \<and> endNode (v_nodes s') (target (datum le)) = Some b \<and> node_type b = Item"
    have "strokeOpacity le = 0" using le unfolding l by (auto split: if_splits)
    then show "(strokeOpacity le > 0) = (\<not> hidden a \<and> \<not> hidden b)" using h ab by auto
  qed
qed

lemma visibilityInvariant_hover:
  assumes inv: "visibilityInvariant s"
  shows "visibilityInvariant (mouseover i s)"
proof (cases "hidden (v_nodes s ! i)")
  case True
  then show ?thesis using inv by (simp add: mouseover_def)
next
  case False
  define g :: "link_el \<Rightarrow> link_el" where "g = (\<lambda>le. if connected (v_nodes s) (v_nodes s ! i) (datum le) \<and> strokeOpacity le > 0
                        then le\<lparr>strokeOpacity := 8 / 10\<rparr> else le)"
  have m: "mouseover i s = s\<lparr>v_links := map g (v_links s)\<rparr>"
    using False by (simp add: mouseover_def g_def)
  have g: "datum (g le) = datum le" "(strokeOpacity (g le) > 0) = (strokeOpacity le > 0)" for le
    by (simp_all add: g_def)
  show ?thesis
    unfolding visibilityInvariant_def
  proof (intro ballI conjI impI allI)
    fix le' t
    assume le: "le' \<in> set (v_links (mouseover i s))" "link_type (datum le') = Branch"
      and t: "endNode (v_nodes (mouseover i s)) (target (datum le')) = Some t \<and> node_type t = Item"
    from le(1) obtain le where l0: "le \<in> set (v_links s)" "le' = g le" unfolding m by auto
    have "(strokeOpacity le > 0) = (\<not> hidden t)"
      using inv l0 le(2) t g(1)[of le] unfolding visibilityInvariant_def m by auto
    then show "(strokeOpacity le' > 0) = (\<not> hidden t)" using g(2)[of le] l0 by simp
  next
    fix le' a b
    assume le: "le' \<in> set (v_links (mouseover i s))" "link_type (datum le') = Reference"
      and ab: "endNode (v_nodes (mouseover i s)) (source (datum le')) = Some a \<and> node_type a = Item
           \<and> endNode (v_nodes (mouseover i s)) (target (datum le')) = Some b \<and> node_type b = Item"
    from le(1) obtain le where l0: "le \<in> set (v_links s)" "le' = g le" unfolding m by auto
    have "(strokeOpacity le > 0) = (\<not> hidden a \<and> \<not> hidden b)"
      using inv l0 le(2) ab g(1)[of le] unfolding visibilityInvariant_def m by auto
    then show "(strokeOpacity le' > 0) = (\<not> hidden a \<and> \<not> hidden b)"
      using g(2)[of le] l0 by simp
  qed
qed

lemma visibilityInvariant_mouseout: "visibilityInvariant (mouseout i s)"
  unfolding visibilityInvariant_def mouseout_def
  by (auto simp: branchOpacity_def referenceOpacity_def split: link_type.splits)

lemma visibilityInvariant_toggle: "visibilityInvariant (fst (toggleSubgraph key s))"
proof -
  obtain t where t: "fst (toggleSubgraph key s) = (toggled key s)\<lparr>zoomTransform := t\<rparr>"
    using toggleSubgraph_cases by blast
  have "visibilityInvariant (toggled key s)"
    by (rule visibilityInvariant_updated[of _ "v_links s"]) (simp add: toggled_def)
  then show ?thesis unfolding t visibilityInvariant_zoom .
qed

lemma visibilityInvariant_showMultiple: "visibilityInvariant (showMultipleSubgraphs cats s)"
  by (rule visibilityInvariant_updated[of _ "v_links s"]) (simp add: showMultipleSubgraphs_def Let_def)

lemma visibilityInvariant_background:
  assumes "visibilityInvariant s"
  shows "visibilityInvariant (fst (backgroundClick s))"
proof (cases "isOpen (activeSubgraph s)")
  case False
  then show ?thesis using assms by (simp add: backgroundClick_def)
next
  case True
  define s1 where "s1 = s\<lparr>activeSubgraph := Closed,
                v_nodes := map (\<lambda>n. if node_type n = Item then n\<lparr>hidden := True\<rparr> else n)
                               (v_nodes s),
                v_links := map (\<lambda>le. if link_type (datum le) = Branch
                                         \<or> link_type (datum le) = Reference
                                      then le\<lparr>strokeOpacity := 0\<rparr> else le)
                               (v_links s)\<rparr>"
  have b: "backgroundClick s = zoomToFit s1" using True by (simp add: backgroundClick_def s1_def)
  obtain t where t: "fst (zoomToFit s1) = s1\<lparr>zoomTransform := t\<rparr>"
    using zoomToFit_cases by blast
  have "visibilityInvariant s1"
    by (rule visibilityInvariant_allHidden[of _ "v_nodes s" "v_links s"]) (simp_all add: s1_def)
  then show ?thesis unfolding b t visibilityInvariant_zoom .
qed

lemma visibilityInvariant_reshuffle:
  assumes "visibilityInvariant s"
  shows "visibilityInvariant (reshuffleGraph rnd s)"
  by (rule visibilityInvariant_keys[OF reshuffle_keys _ assms]) (simp add: reshuffleGraph_def)

lemma visibilityInvariant_click:
  assumes inv: "visibilityInvariant s"
  shows "visibilityInvariant (fst (click rnd i s))"
proof (cases "wasDragged s")
  case True
  then have "click rnd i s = (s\<lparr>wasDragged := False\<rparr>, None)" by (simp add: click_def)
  then show ?thesis using inv visibilityInvariant_fields[of "s\<lparr>wasDragged := False\<rparr>" s] by simp
next
  case False
  then have c: "click rnd i s = nodeClicked rnd i s" by (simp add: click_def)
  show ?thesis
  proof (cases "node_type (v_nodes s ! i)")
    case Center
    then show ?thesis
      unfolding c using visibilityInvariant_reshuffle[OF inv, of rnd] visibilityInvariant_toggle
      by (simp add: nodeClicked_def Let_def)
  next
    case Category
    then show ?thesis
      unfolding c using visibilityInvariant_toggle by (simp add: nodeClicked_def Let_def)
  next
    case Item
    then show ?thesis
      unfolding c using visibilityInvariant_showMultiple by (simp add: nodeClicked_def Let_def)
  qed
qed

lemma visibilityInvariant_handle:
  assumes inv: "visibilityInvariant s"
  shows "visibilityInvariant (fst (handle Third rnd ev s))"
proof (cases ev)
  case (Click i)
  then show ?thesis using visibilityInvariant_click[OF inv] inv by (simp add: onNode_def clicked_def)
next
  case BackgroundClick
  then show ?thesis using visibilityInvariant_background[OF inv] by simp
next
  case (MouseOver i)
  then show ?thesis using visibilityInvariant_hover[OF inv] inv by (simp add: onNode_def hover_def)
next
  case (MouseOut i)
  then show ?thesis using visibilityInvariant_mouseout inv by (simp add: onNode_def)
next
  case (DragStart i ex ey)
  have "visibilityInvariant (dragStart i ex ey s)"
    by (rule visibilityInvariant_keys[OF dragStart_keys _ inv]) (simp add: dragStart_def)
  then show ?thesis using DragStart inv by (simp add: onNode_def)
next
  case (Drag i ex ey)
  have "visibilityInvariant (dragMove i ex ey s)"
    by (rule visibilityInvariant_keys[OF dragMove_keys _ inv])
       (simp add: dragMove_def Let_def split: option.splits)
  then show ?thesis using Drag inv by (simp add: onNode_def)
next
  case (DragEnd i)
  have "visibilityInvariant (dragEnd i s)"
    by (rule visibilityInvariant_keys[OF dragEnd_keys _ inv]) (simp add: dragEnd_def Let_def)
  then show ?thesis using DragEnd inv by (simp add: onNode_def)
next
  case RecenterTimer
  obtain t where "fst (recenter s) = s\<lparr>zoomTransform := t\<rparr>" using recenter_cases by blast
  then show ?thesis using RecenterTimer inv by (simp add: visibilityInvariant_zoom)
next
  case ZoomVisibleTimer
  obtain t where "fst (zoomToVisibleNodes s) = s\<lparr>zoomTransform := t\<rparr>"
    using zoomToVisibleNodes_cases by blast
  then show ?thesis using ZoomVisibleTimer inv by (simp add: visibilityInvariant_zoom)
next
  case ZoomFitTimer
  obtain t where "fst (zoomToFit s) = s\<lparr>zoomTransform := t\<rparr>" using zoomToFit_cases by blast
  then show ?thesis using ZoomFitTimer inv by (simp add: visibilityInvariant_zoom)
next
  case (Resize w h)
  have "visibilityInvariant (resize w h s)"
    by (rule visibilityInvariant_keys[OF resize_keys _ inv]) (simp add: resize_def)
  then show ?thesis using Resize by simp
next
  case (Tick pos)
  have "visibilityInvariant (tick pos s)"
    by (rule visibilityInvariant_keys[OF tick_keys _ inv]) (simp add: tick_def)
  then show ?thesis using Tick by simp
qed

lemma run_invariant:
  assumes step: "\<And>rnd ev t. P t \<Longrightarrow> P (fst (handle rv rnd ev t))"
  shows "P s \<Longrightarrow> P (run rv s evs)"
  unfolding run_def
proof (induction evs arbitrary: s)
  case Nil
  then show ?case by simp
next
  case (Cons re evs)
  have "P (fst (handle rv (fst re) (snd re) s))" using step Cons.prems by blast
  from Cons.IH[OF this] show ?case by simp
qed

lemma visibilityInvariant_rendered:
  assumes "allItemsHidden (nodes g)"
  shows "visibilityInvariant (renderGraph bind cont g)"
proof -
  have h: "hidden t" if "endNode (nodes g) e = Some t" "node_type t = Item" for e t
  proof -
    have "t \<in> set (nodes g)"
      using that(1) by (cases e) (auto simp: endNode_def dest: find_Some_mem split: if_splits)
    then show ?thesis using assms that(2) by (auto simp: allItemsHidden_def)
  qed
  show ?thesis
    unfolding visibilityInvariant_def
  proof (intro ballI conjI impI allI)
    fix le t
    assume le: "le \<in> set (v_links (renderGraph bind cont g))" "link_type (datum le) = Branch"
      and t: "endNode (v_nodes (renderGraph bind cont g)) (target (datum le)) = Some t
              \<and> node_type t = Item"
    have "strokeOpacity le = 0" using le by (auto simp: renderGraph_def)
    moreover have "hidden t" using h[of "target (datum le)" t] t by (simp add: renderGraph_def)
    ultimately show "(strokeOpacity le > 0) = (\<not> hidden t)" by simp
  next
    fix le a b
    assume le: "le \<in> set (v_links (renderGraph bind cont g))" "link_type (datum le) = Reference"
      and ab: "endNode (v_nodes (renderGraph bind cont g)) (source (datum le)) = Some a
           \<and> node_type a = Item
           \<and> endNode (v_nodes (renderGraph bind cont g)) (target (datum le)) = Some b
           \<and> node_type b = Item"
    have "strokeOpacity le = 0" using le by (auto simp: renderGraph_def)
    moreover have "hidden a" using h[of "source (datum le)" a] ab by (simp add: renderGraph_def)
    ultimately show "(strokeOpacity le > 0) = (\<not> hidden a \<and> \<not> hidden b)" by simp
  qed
qed

lemma built_allItemsHidden:
  "allItemsHidden (nodes (fst (buildGraphData rnd cont pg)))"
  "allItemsHidden (nodes (fst (buildGraphData_auto rx rnd cont pg)))"
proof -
  have h: "hidden n" if a: "forget n \<in> set (plainNodes c cfg pg)" and b: "node_type n = Item"
    for n c cfg
  proof -
    have "node_type (forget n) = Item" using b by (simp add: forget_fields)
    then obtain k e i where "forget n = forget ((c k e i)\<lparr>hidden := True\<rparr>)"
      using plainNodes_item[OF a] by blast
    then have "hidden (forget n) = hidden (forget ((c k e i)\<lparr>hidden := True\<rparr>))" by simp
    then show ?thesis by (simp add: forget_fields)
  qed
  show "allItemsHidden (nodes (fst (buildGraphData rnd cont pg)))"
    unfolding allItemsHidden_def
  proof (intro ballI impI)
    fix n assume n: "n \<in> set (nodes (fst (buildGraphData rnd cont pg)))" "node_type n = Item"
    then have "forget n \<in> set (map forget (nodes (fst (buildGraphData rnd cont pg))))" by simp
    then have "forget n \<in> set (plainNodes collectItemData sectionConfig pg)"
      unfolding buildGraphData_plain(1) by (simp add: plainGraph_def)
    then show "hidden n" using h n(2) by blast
  qed
  show "allItemsHidden (nodes (fst (buildGraphData_auto rx rnd cont pg)))"
    unfolding allItemsHidden_def
  proof (intro ballI impI)
    fix n assume n: "n \<in> set (nodes (fst (buildGraphData_auto rx rnd cont pg)))" "node_type n = Item"
    then have "forget n \<in> set (map forget (nodes (fst (buildGraphData_auto rx rnd cont pg))))" by simp
    then have "forget n \<in> set (plainNodes collectItemData_auto sectionConfig_auto pg)"
      unfolding buildGraphData_auto_plain(1) by (simp add: plainGraph_auto_def)
    then show "hidden n" using h n(2) by blast
  qed
qed

lemma visibility_invariant_third_revision:
  "visibilityInvariant (run Third (renderGraph bind cont (fst (buildGraphData rnd cont' pg))) evs)"
proof (rule run_invariant[where P = visibilityInvariant])
  show "visibilityInvariant (fst (handle Third r ev t))" if "visibilityInvariant t" for r ev t
    using that by (rule visibilityInvariant_handle)
  show "visibilityInvariant (renderGraph bind cont (fst (buildGraphData rnd cont' pg)))"
    by (rule visibilityInvariant_rendered[OF built_allItemsHidden(1)])
qed

subsection \<open>A case rule for the handlers\<close>

lemma backgroundClick_cases:
  "\<exists>t. fst (backgroundClick s)
     = (if isOpen (activeSubgraph s) then (closedAll s)\<lparr>zoomTransform := t\<rparr> else s)"
proof (cases "isOpen (activeSubgraph s)")
  case False
  then show ?thesis by (simp add: backgroundClick_def)
next
  case True
  then have "backgroundClick s = zoomToFit (closedAll s)"
    by (simp add: backgroundClick_def closedAll_def)
  then show ?thesis using zoomToFit_cases[of "closedAll s"] True by auto
qed

lemma handle_cases:
  assumes init: "P s"
    and zoom: "\<And>u t. P u \<Longrightarrow> P (u\<lparr>zoomTransform := t\<rparr>)"
    and flag: "\<And>u. P u \<Longrightarrow> P (u\<lparr>wasDragged := False\<rparr>)"
    and tog: "\<And>u key. P u \<Longrightarrow> P (toggled key u)"
    and resh: "\<And>u r. P u \<Longrightarrow> P (reshuffleGraph r u)"
    and clos: "\<And>u. P u \<Longrightarrow> P (closedAll u)"
    and over: "\<And>u i. P u \<Longrightarrow> P (hover rv i u)"
    and out: "\<And>u i. P u \<Longrightarrow> P (mouseout i u)"
    and dstart: "\<And>u i ex ey. P u \<Longrightarrow> P (dragStart i ex ey u)"
    and dmove: "\<And>u i ex ey. P u \<Longrightarrow> P (dragMove i ex ey u)"
    and dend: "\<And>u i. P u \<Longrightarrow> P (dragEnd i u)"
    and resz: "\<And>u w h. P u \<Longrightarrow> P (resize w h u)"
    and tck: "\<And>u pos. P u \<Longrightarrow> P (tick pos u)"
    and multi: "\<And>i. ev = Click i \<Longrightarrow> i < length (v_nodes s) \<Longrightarrow> node_type (v_nodes s ! i) = Item \<Longrightarrow>
         P (showMultipleSubgraphs
              (category (v_nodes s ! i) # map Some (getRelatedCategories s (v_nodes s ! i))) s)"
  shows "P (fst (handle rv rnd ev s))"
proof (cases ev)
  case (Click i)
  show ?thesis
  proof (cases "i < length (v_nodes s)")
    case False
    then show ?thesis using Click init by (simp add: onNode_def)
  next
    case len: True
    show ?thesis
    proof (cases "rv = Third \<and> wasDragged s")
      case True
      then show ?thesis using Click len flag[OF init] by (simp add: onNode_def click_def clicked_def)
    next
      case nd: False
      have h: "handle rv rnd ev s = nodeClicked rnd i s"
        using Click len nd by (cases rv) (simp_all add: onNode_def click_def clicked_def)
      show ?thesis
      proof (cases "node_type (v_nodes s ! i)")
        case Center
        obtain t where t: "fst (toggleSubgraph None (reshuffleGraph rnd s))
            = (toggled None (reshuffleGraph rnd s))\<lparr>zoomTransform := t\<rparr>"
          using toggleSubgraph_cases by blast
        show ?thesis
          unfolding h using Center resh[OF init, of rnd]
            zoom[OF tog[OF resh[OF init, of rnd], of None], where t = t] t
          by (simp add: nodeClicked_def Let_def)
      next
        case Category
        obtain t where t: "fst (toggleSubgraph (Some (removeFirst ''cat-'' (node_id (v_nodes s ! i)))) s)
            = (toggled (Some (removeFirst ''cat-'' (node_id (v_nodes s ! i)))) s)\<lparr>zoomTransform := t\<rparr>"
          using toggleSubgraph_cases by blast
        show ?thesis
          unfolding h using Category zoom[OF tog[OF init], where t = t] t
          by (simp add: nodeClicked_def Let_def)
      next
        case Item
        then show ?thesis
          unfolding h using multi[OF Click len Item] by (simp add: nodeClicked_def Let_def)
      qed
    qed
  qed
next
  case BackgroundClick
  obtain t where "fst (backgroundClick s)
     = (if isOpen (activeSubgraph s) then (closedAll s)\<lparr>zoomTransform := t\<rparr> else s)"
    using backgroundClick_cases by blast
  then show ?thesis using BackgroundClick init zoom[OF clos[OF init], where t = t] by simp
next
  case (MouseOver i)
  then show ?thesis using init over[OF init] by (simp add: onNode_def)
next
  case (MouseOut i)
  then show ?thesis using init out[OF init] by (simp add: onNode_def)
next
  case (DragStart i ex ey)
  then show ?thesis using init dstart[OF init] by (simp add: onNode_def)
next
  case (Drag i ex ey)
  then show ?thesis using init dmove[OF init] by (simp add: onNode_def)
next
  case (DragEnd i)
  then show ?thesis using init dend[OF init] by (simp add: onNode_def)
next
  case RecenterTimer
  obtain t where "fst (recenter s) = s\<lparr>zoomTransform := t\<rparr>" using recenter_cases by blast
  then show ?thesis using RecenterTimer zoom[OF init, where t = t] by simp
next
  case ZoomVisibleTimer
  obtain t where "fst (zoomToVisibleNodes s) = s\<lparr>zoomTransform := t\<rparr>"
    using zoomToVisibleNodes_cases by blast
  then show ?thesis using ZoomVisibleTimer zoom[OF init, where t = t] by simp
next
  case ZoomFitTimer
  obtain t where "fst (zoomToFit s) = s\<lparr>zoomTransform := t\<rparr>" using zoomToFit_cases by blast
  then show ?thesis using ZoomFitTimer zoom[OF init, where t = t] by simp
next
  case (Resize w h)
  then show ?thesis using resz[OF init] by simp
next
  case (Tick pos)
  then show ?thesis using tck[OF init] by simp
qed

subsection \<open>Node types never change\<close>

lemma types_of_keys:
  assumes "map nodeKey ns' = map nodeKey ns"
  shows "map node_type ns' = map node_type ns"
proof -
  have "map (\<lambda>k. fst (snd k)) (map nodeKey ns') = map (\<lambda>k. fst (snd k)) (map nodeKey ns)"
    using assms by simp
  then show ?thesis by (simp add: nodeKey_def comp_def)
qed

lemma hide_types:
  "map node_type (map (\<lambda>n. if node_type n = Item then n\<lparr>hidden := h n\<rparr> else n) ns)
     = map node_type ns"
  by (induction ns) auto

lemma toggledNodes_types: "map node_type (toggledNodes k ns) = map node_type ns"
  by (simp add: toggledNodes_def comp_def)

lemma handle_types:
  "map node_type (v_nodes (fst (handle rv rnd ev s))) = map node_type (v_nodes s)"
proof (rule handle_cases[where P = "\<lambda>u. map node_type (v_nodes u) = map node_type (v_nodes s)"])
  show "map node_type (v_nodes s) = map node_type (v_nodes s)" by simp
  show "map node_type (v_nodes (toggled key u)) = map node_type (v_nodes s)"
    if "map node_type (v_nodes u) = map node_type (v_nodes s)" for u key
    using that by (simp add: toggled_def toggledNodes_types)
  show "map node_type (v_nodes (reshuffleGraph r u)) = map node_type (v_nodes s)"
    if "map node_type (v_nodes u) = map node_type (v_nodes s)" for u r
    using that types_of_keys[OF reshuffle_keys, of r u] by simp
  show "map node_type (v_nodes (closedAll u)) = map node_type (v_nodes s)"
    if "map node_type (v_nodes u) = map node_type (v_nodes s)" for u
    using that hide_types[of "\<lambda>n. True" "v_nodes u"] by (simp add: closedAll_def)
  show "map node_type (v_nodes (hover rv i u)) = map node_type (v_nodes s)"
    if "map node_type (v_nodes u) = map node_type (v_nodes s)" for u i
    using that by (cases rv) (simp_all add: hover_def mouseover_def mouseover_auto_def Let_def)
  show "map node_type (v_nodes (mouseout i u)) = map node_type (v_nodes s)"
    if "map node_type (v_nodes u) = map node_type (v_nodes s)" for u i
    using that by (simp add: mouseout_def)
  show "map node_type (v_nodes (dragStart i ex ey u)) = map node_type (v_nodes s)"
    if "map node_type (v_nodes u) = map node_type (v_nodes s)" for u i ex ey
    using that types_of_keys[OF dragStart_keys, of i ex ey u] by simp
  show "map node_type (v_nodes (dragMove i ex ey u)) = map node_type (v_nodes s)"
    if "map node_type (v_nodes u) = map node_type (v_nodes s)" for u i ex ey
    using that types_of_keys[OF dragMove_keys, of i ex ey u] by simp
  show "map node_type (v_nodes (dragEnd i u)) = map node_type (v_nodes s)"
    if "map node_type (v_nodes u) = map node_type (v_nodes s)" for u i
    using that types_of_keys[OF dragEnd_keys, of i u] by simp
  show "map node_type (v_nodes (resize w h u)) = map node_type (v_nodes s)"
    if "map node_type (v_nodes u) = map node_type (v_nodes s)" for u w h
    using that types_of_keys[OF resize_keys, of w h u] by simp
  show "map node_type (v_nodes (tick pos u)) = map node_type (v_nodes s)"
    if "map node_type (v_nodes u) = map node_type (v_nodes s)" for u pos
    using that types_of_keys[OF tick_keys, of pos u] by simp
  show "map node_type (v_nodes (showMultipleSubgraphs
              (category (v_nodes s ! i) # map Some (getRelatedCategories s (v_nodes s ! i))) s))
        = map node_type (v_nodes s)" for i
    using hide_types[of _ "v_nodes s"] by (simp add: showMultipleSubgraphs_def Let_def)
qed simp_all

subsection \<open>One category at a time without item clicks\<close>

lemma atMostOne_keys:
  assumes k: "map nodeKey (v_nodes s') = map nodeKey (v_nodes s)" and a: "atMostOneCategory s"
  shows "atMostOneCategory s'"
proof -
  from a obtain c where c: "\<forall>n \<in> set (v_nodes s). node_type n = Item \<and> \<not> hidden n \<longrightarrow> category n = Some c"
    by (auto simp: atMostOneCategory_def)
  have "category n' = Some c" if n': "n' \<in> set (v_nodes s')" "node_type n' = Item" "\<not> hidden n'" for n'
  proof -
    have "nodeKey n' \<in> set (map nodeKey (v_nodes s))" using n'(1) k[symmetric] by simp
    then obtain n where n: "n \<in> set (v_nodes s)" "nodeKey n = nodeKey n'" by auto
    then have "node_type n = Item" "\<not> hidden n" "category n = category n'"
      using n'(2,3) by (auto simp: nodeKey_def)
    then show ?thesis using c n(1) by auto
  qed
  then show ?thesis unfolding atMostOneCategory_def by blast
qed

lemma atMostOne_same:
  assumes "v_nodes s' = v_nodes s" and "atMostOneCategory s"
  shows "atMostOneCategory s'"
  using assms by (simp add: atMostOneCategory_def)

lemma atMostOne_toggled: "atMostOneCategory (toggled key s)"
proof (cases "effectiveKey s key")
  case None
  then show ?thesis
    by (auto simp: atMostOneCategory_def toggled_def toggledNodes_def truthyKey_def)
next
  case (Some c)
  have "category n = Some c"
    if "n \<in> set (toggledNodes (Some c) (v_nodes s))" "node_type n = Item" "\<not> hidden n" for n
    using that by (auto simp: toggledNodes_def split: if_splits)
  then show ?thesis unfolding atMostOneCategory_def toggled_def Some by auto
qed

lemma atMostOne_closedAll: "atMostOneCategory (closedAll s)"
  by (auto simp: atMostOneCategory_def closedAll_def)

lemma atMostOne_handle:
  assumes a: "atMostOneCategory s" and ev: "notItemClick (map node_type (v_nodes s)) ev"
  shows "atMostOneCategory (fst (handle rv rnd ev s))"
proof (rule handle_cases[where P = atMostOneCategory])
  show "atMostOneCategory s" by (rule a)
  show "atMostOneCategory (u\<lparr>zoomTransform := t\<rparr>)" if "atMostOneCategory u" for u t
    using that by (simp add: atMostOneCategory_def)
  show "atMostOneCategory (u\<lparr>wasDragged := False\<rparr>)" if "atMostOneCategory u" for u
    using that by (simp add: atMostOneCategory_def)
  show "atMostOneCategory (toggled key u)" for u key by (rule atMostOne_toggled)
  show "atMostOneCategory (reshuffleGraph r u)" if "atMostOneCategory u" for u r
    using that by (rule atMostOne_keys[OF reshuffle_keys])
  show "atMostOneCategory (closedAll u)" for u by (rule atMostOne_closedAll)
  show "atMostOneCategory (hover rv i u)" if "atMostOneCategory u" for u i
    using that by (cases rv)
      (simp_all add: atMostOneCategory_def hover_def mouseover_def mouseover_auto_def Let_def)
  show "atMostOneCategory (mouseout i u)" if "atMostOneCategory u" for u i
    using that by (simp add: atMostOneCategory_def mouseout_def)
  show "atMostOneCategory (dragStart i ex ey u)" if "atMostOneCategory u" for u i ex ey
    using that by (rule atMostOne_keys[OF dragStart_keys])
  show "atMostOneCategory (dragMove i ex ey u)" if "atMostOneCategory u" for u i ex ey
    using that by (rule atMostOne_keys[OF dragMove_keys])
  show "atMostOneCategory (dragEnd i u)" if "atMostOneCategory u" for u i
    using that by (rule atMostOne_keys[OF dragEnd_keys])
  show "atMostOneCategory (resize w h u)" if "atMostOneCategory u" for u w h
    using that by (rule atMostOne_keys[OF resize_keys])
  show "atMostOneCategory (tick pos u)" if "atMostOneCategory u" for u pos
    using that by (rule atMostOne_keys[OF tick_keys])
  show "atMostOneCategory (showMultipleSubgraphs
              (category (v_nodes s ! i) # map Some (getRelatedCategories s (v_nodes s ! i))) s)"
    if "ev = Click i" "i < length (v_nodes s)" "node_type (v_nodes s ! i) = Item" for i
    using that ev by (simp add: notItemClick_def)
qed

lemma atMostOne_run:
  "atMostOneCategory s \<Longrightarrow> list_all (\<lambda>re. notItemClick (map node_type (v_nodes s)) (snd re)) evs \<Longrightarrow>
   atMostOneCategory (run rv s evs)"
proof (induction evs arbitrary: s)
  case Nil
  then show ?case by (simp add: run_def)
next
  case (Cons re evs)
  define s1 where "s1 = fst (handle rv (fst re) (snd re) s)"
  have t: "map node_type (v_nodes s1) = map node_type (v_nodes s)"
    unfolding s1_def by (rule handle_types)
  have "atMostOneCategory s1"
    unfolding s1_def using Cons.prems by (intro atMostOne_handle) simp_all
  moreover have "list_all (\<lambda>re. notItemClick (map node_type (v_nodes s1)) (snd re)) evs"
    using Cons.prems(2) t by simp
  ultimately have "atMostOneCategory (run rv s1 evs)" by (rule Cons.IH)
  then show ?case by (simp add: run_def s1_def)
qed

lemma removeFirst_prefix: "removeFirst p (p @ k) = k"
proof (cases "p @ k")
  case Nil
  then show ?thesis by simp
next
  case (Cons a list)
  have "take (length p) (a # list) = p" "drop (length p) (a # list) = k"
    unfolding Cons[symmetric] by simp_all
  then show ?thesis unfolding Cons by simp
qed

lemma category_click_closes:
  assumes i: "i < length (v_nodes s)" and ty: "node_type (v_nodes s ! i) = Category"
    and ident: "node_id (v_nodes s ! i) = ''cat-'' @ k" and act: "activeSubgraph s = Single k"
    and nd: "rv = Third \<longrightarrow> \<not> wasDragged s"
  shows "activeSubgraph (fst (handle rv rnd (Click i) s)) = Closed"
    and "allItemsHidden (v_nodes (fst (handle rv rnd (Click i) s)))"
proof -
  have h: "handle rv rnd (Click i) s = toggleSubgraph (Some k) s"
    using i ty ident nd removeFirst_prefix[of "''cat-''" k]
    by (cases rv) (simp_all add: onNode_def clicked_def click_def nodeClicked_def Let_def)
  obtain t where t: "fst (toggleSubgraph (Some k) s) = (toggled (Some k) s)\<lparr>zoomTransform := t\<rparr>"
    using toggleSubgraph_cases by blast
  have e: "effectiveKey s (Some k) = None"
    using act by (simp add: effectiveKey_def sameSubgraph_def)
  show "activeSubgraph (fst (handle rv rnd (Click i) s)) = Closed"
    unfolding h t by (simp add: toggled_def e)
  show "allItemsHidden (v_nodes (fst (handle rv rnd (Click i) s)))"
    unfolding h t by (auto simp: toggled_def e toggledNodes_def truthyKey_def allItemsHidden_def)
qed

lemma atMostOne_rendered:
  assumes "allItemsHidden (nodes g)"
  shows "atMostOneCategory (renderGraph bind cont g)"
  using assms by (auto simp: atMostOneCategory_def allItemsHidden_def renderGraph_def)

text \<open>
  Claim C3. A click on a category node whose subgraph is the open one (in the third
  revision, a click that does not end a drag) closes it: no subgraph is active and every
  item is hidden. And in every state reached from a rendered graph, built by either
  builder, by events none of which is a click on an item node, the items that are not
  hidden all belong to one category.
\<close>

theorem category_clicks_single_open:
  "(i < length (v_nodes s) \<and> node_type (v_nodes s ! i) = Category
      \<and> node_id (v_nodes s ! i) = ''cat-'' @ k \<and> activeSubgraph s = Single k
      \<and> (rv = Third \<longrightarrow> \<not> wasDragged s)
    \<longrightarrow> activeSubgraph (fst (handle rv rnd (Click i) s)) = Closed
        \<and> allItemsHidden (v_nodes (fst (handle rv rnd (Click i) s))))
   \<and> (list_all (\<lambda>re. notItemClick
                  (map node_type (nodes (fst (buildGraphData rnd' cont' pg)))) (snd re)) evs
    \<longrightarrow> atMostOneCategory (run rv (renderGraph bind cont (fst (buildGraphData rnd' cont' pg))) evs))
   \<and> (list_all (\<lambda>re. notItemClick
                  (map node_type (nodes (fst (buildGraphData_auto rx rnd' cont' pg)))) (snd re)) evs
    \<longrightarrow> atMostOneCategory
          (run rv (renderGraph bind cont (fst (buildGraphData_auto rx rnd' cont' pg))) evs))"
proof (intro conjI impI)
  assume a: "i < length (v_nodes s) \<and> node_type (v_nodes s ! i) = Category
      \<and> node_id (v_nodes s ! i) = ''cat-'' @ k \<and> activeSubgraph s = Single k
      \<and> (rv = Third \<longrightarrow> \<not> wasDragged s)"
  then show "activeSubgraph (fst (handle rv rnd (Click i) s)) = Closed"
    using category_click_closes(1)[of i s k rv rnd] by blast
  from a show "allItemsHidden (v_nodes (fst (handle rv rnd (Click i) s)))"
    using category_click_closes(2)[of i s k rv rnd] by blast
next
  assume "list_all (\<lambda>re. notItemClick
                  (map node_type (nodes (fst (buildGraphData rnd' cont' pg)))) (snd re)) evs"
  then show "atMostOneCategory (run rv (renderGraph bind cont (fst (buildGraphData rnd' cont' pg))) evs)"
    by (intro atMostOne_run atMostOne_rendered built_allItemsHidden) (simp add: renderGraph_def)
next
  assume "list_all (\<lambda>re. notItemClick
                  (map node_type (nodes (fst (buildGraphData_auto rx rnd' cont' pg)))) (snd re)) evs"
  then show "atMostOneCategory
          (run rv (renderGraph bind cont (fst (buildGraphData_auto rx rnd' cont' pg))) evs)"
    by (intro atMostOne_run atMostOne_rendered built_allItemsHidden) (simp add: renderGraph_def)
qed

lemma openedView_state:
  "activeSubgraph openedView = Single ''work''"
  "map nodeKey (v_nodes openedView)
     = [(''center'', Center, None, False), (''cat-work'', Category, Some ''work'', False),
        (''work-acme-0'', Item, Some ''work'', False),
        (''cat-projects'', Category, Some ''projects'', False),
        (''projects-kyo-0'', Item, Some ''projects'', True)]"
  "wasDragged openedView = False"
  by (simp_all add: openedView_def sampleView_def sampleNode_def sampleLink_def onNode_def
      clicked_def click_def nodeClicked_def toggleSubgraph_def Let_def sameSubgraph_def
      truthyKey_def zoomToCategory_def zoomToVisibleNodes_def nodeKey_def)

subsection \<open>The pin of the center node\<close>












subsection \<open>The center node under drag and reshuffle\<close>









subsection \<open>Item clicks\<close>

lemma endNode_mem: "endNode ns e = Some m \<Longrightarrow> m \<in> set ns"
proof (cases e)
  case (Ident k)
  assume "endNode ns e = Some m"
  then have "find (\<lambda>n. node_id n = k) ns = Some m" using Ident by (simp add: endNode_def)
  then show ?thesis by (auto simp: find_Some_iff)
next
  case (Obj i)
  assume "endNode ns e = Some m"
  then show ?thesis using Obj by (auto simp: endNode_def split: if_splits)
qed

lemma addCategory_set:
  assumes "namedCategories ns" "n = None \<or> (\<exists>m \<in> set ns. n = Some m)"
  shows "set (addCategory n acc) = set acc \<union> set (categoryOf n)"
  using assms
  by (auto simp: addCategory_def categoryOf_def namedCategories_def list_all_iff
      split: option.splits)

lemma endNode_cases: "endNode ns e = None \<or> (\<exists>m \<in> set ns. endNode ns e = Some m)"
  using endNode_mem[of ns e] by (cases "endNode ns e") auto

lemma relatedStep_set:
  assumes "namedCategories ns"
  shows "set (relatedStep ns d le acc) = set acc \<union> set (neighbourCategories ns d (datum le))"
  by (auto simp: relatedStep_def neighbourCategories_def Let_def
      addCategory_set[OF assms endNode_cases])

lemma fold_relatedStep_set:
  assumes "namedCategories ns"
  shows "set (fold (relatedStep ns d) ls acc)
      = set acc \<union> (\<Union>le \<in> set ls. set (neighbourCategories ns d (datum le)))"
proof (induction ls arbitrary: acc)
  case Nil
  show ?case by simp
next
  case (Cons le ls)
  show ?case
    unfolding fold_simps Cons.IH relatedStep_set[OF assms] by auto
qed

lemma getRelatedCategories_set:
  assumes "namedCategories (v_nodes s)"
  shows "set (category d # map Some (getRelatedCategories s d)) = statedCategories s d"
  unfolding getRelatedCategories_def statedCategories_def
  by (simp add: fold_relatedStep_set[OF assms])

lemma showMultiple_fields:
  "activeSubgraph (showMultipleSubgraphs (c # cs) s) = Multi (c # cs)"
  "v_nodes (showMultipleSubgraphs cats s)
     = map (\<lambda>n. if node_type n = Item then n\<lparr>hidden := \<not> (category n \<in> set cats)\<rparr> else n)
           (v_nodes s)"
  by (simp_all add: showMultipleSubgraphs_def Let_def)

lemma item_click:
  assumes "i < length (v_nodes s)" "node_type (v_nodes s ! i) = Item" "rv = Third \<longrightarrow> \<not> wasDragged s"
  shows "handle rv rnd (Click i) s
      = (showMultipleSubgraphs (category (v_nodes s ! i)
           # map Some (getRelatedCategories s (v_nodes s ! i))) s, None)"
  using assms
  by (cases rv) (simp_all add: onNode_def clicked_def click_def nodeClicked_def Let_def)

text \<open>
  Claim C4. A click on an item node that is not hidden (in the third revision, a click
  that does not end a drag), in a state where no node has the empty string for its
  category, makes the active subgraph the list of its own category and the categories of
  the nodes that reference links join to it; it changes neither type nor category of a
  node, and afterwards an item is not hidden exactly when its category is in that set.
  The handler raises no exception.
\<close>

theorem item_click_multi_open:
  assumes "i < length (v_nodes s)" and "node_type (v_nodes s ! i) = Item"
    and "\<not> hidden (v_nodes s ! i)" and "rv = Third \<longrightarrow> \<not> wasDragged s"
    and "namedCategories (v_nodes s)"
  shows "(\<exists>cats. activeSubgraph (fst (handle rv rnd (Click i) s)) = Multi cats
            \<and> set cats = statedCategories s (v_nodes s ! i))
     \<and> length (v_nodes (fst (handle rv rnd (Click i) s))) = length (v_nodes s)
     \<and> (\<forall>j < length (v_nodes s).
           node_type (v_nodes (fst (handle rv rnd (Click i) s)) ! j) = node_type (v_nodes s ! j)
         \<and> category (v_nodes (fst (handle rv rnd (Click i) s)) ! j) = category (v_nodes s ! j)
         \<and> (node_type (v_nodes s ! j) = Item \<longrightarrow>
              (\<not> hidden (v_nodes (fst (handle rv rnd (Click i) s)) ! j))
              = (category (v_nodes s ! j) \<in> statedCategories s (v_nodes s ! i))))
     \<and> snd (handle rv rnd (Click i) s) = None"
proof -
  let ?cats = "category (v_nodes s ! i) # map Some (getRelatedCategories s (v_nodes s ! i))"
  have h: "handle rv rnd (Click i) s = (showMultipleSubgraphs ?cats s, None)"
    by (rule item_click[OF assms(1,2,4)])
  have c: "set ?cats = statedCategories s (v_nodes s ! i)"
    by (rule getRelatedCategories_set[OF assms(5)])
  have "activeSubgraph (fst (handle rv rnd (Click i) s)) = Multi ?cats"
    unfolding h fst_conv by (rule showMultiple_fields(1))
  then have a: "\<exists>cats. activeSubgraph (fst (handle rv rnd (Click i) s)) = Multi cats
            \<and> set cats = statedCategories s (v_nodes s ! i)"
    using c by blast
  have n: "v_nodes (fst (handle rv rnd (Click i) s))
      = map (\<lambda>n. if node_type n = Item
                  then n\<lparr>hidden := \<not> (category n \<in> statedCategories s (v_nodes s ! i))\<rparr> else n)
            (v_nodes s)"
    unfolding h fst_conv showMultiple_fields(2) c ..
  have l: "length (v_nodes (fst (handle rv rnd (Click i) s))) = length (v_nodes s)"
    unfolding n by simp
  have b: "\<forall>j < length (v_nodes s).
           node_type (v_nodes (fst (handle rv rnd (Click i) s)) ! j) = node_type (v_nodes s ! j)
         \<and> category (v_nodes (fst (handle rv rnd (Click i) s)) ! j) = category (v_nodes s ! j)
         \<and> (node_type (v_nodes s ! j) = Item \<longrightarrow>
              (\<not> hidden (v_nodes (fst (handle rv rnd (Click i) s)) ! j))
              = (category (v_nodes s ! j) \<in> statedCategories s (v_nodes s ! i)))"
    unfolding n by simp
  have e: "snd (handle rv rnd (Click i) s) = None"
    unfolding h by simp
  from a l b e show ?thesis by (intro conjI)
qed

lemma updateLink_datum: "datum (updateLink ns le) = datum le"
  by (simp add: updateLink_def split: link_type.splits)

lemma openedView_toggled:
  "\<exists>t. openedView = (toggled (Some ''work'') sampleView)\<lparr>zoomTransform := t\<rparr>"
proof -
  have "handle Third fixedRandom (Click 1) sampleView = toggleSubgraph (Some ''work'') sampleView"
    by (simp add: onNode_def clicked_def click_def nodeClicked_def sampleView_def sampleNode_def
        removeFirst_prefix[of "''cat-''" "''work''", simplified])
  then show ?thesis
    unfolding openedView_def using toggleSubgraph_cases[of "Some ''work''" sampleView] by simp
qed

lemma openedView_nodes:
  "v_nodes openedView
     = [sampleNode ''center'' Center None 300 200,
        sampleNode ''cat-work'' Category (Some ''work'') 300 60,
        (sampleNode ''work-acme-0'' Item (Some ''work'') 310 40)\<lparr>hidden := False\<rparr>,
        sampleNode ''cat-projects'' Category (Some ''projects'') 440 200,
        (sampleNode ''projects-kyo-0'' Item (Some ''projects'') 450 210)\<lparr>hidden := True\<rparr>]"
proof -
  obtain t where o: "openedView = (toggled (Some ''work'') sampleView)\<lparr>zoomTransform := t\<rparr>"
    using openedView_toggled by blast
  have "v_nodes openedView = toggledNodes (Some ''work'') (v_nodes sampleView)"
    unfolding o by (simp add: toggled_def effectiveKey_def sameSubgraph_def sampleView_def)
  then show ?thesis
    by (simp add: toggledNodes_def sampleView_def sampleNode_def truthyKey_def)
qed

lemma openedView_links:
  "map datum (v_links openedView)
     = [\<lparr>source = Ident ''center'', target = Ident ''cat-work'', link_type = Spine\<rparr>,
        \<lparr>source = Ident ''cat-work'', target = Ident ''work-acme-0'', link_type = Branch\<rparr>,
        \<lparr>source = Ident ''center'', target = Ident ''cat-projects'', link_type = Spine\<rparr>,
        \<lparr>source = Ident ''cat-projects'', target = Ident ''projects-kyo-0'', link_type = Branch\<rparr>,
        \<lparr>source = Ident ''work-acme-0'', target = Ident ''projects-kyo-0'',
          link_type = Reference\<rparr>]"
proof -
  obtain t where o: "openedView = (toggled (Some ''work'') sampleView)\<lparr>zoomTransform := t\<rparr>"
    using openedView_toggled by blast
  have "map datum (v_links openedView) = map datum (v_links sampleView)"
    unfolding o by (simp add: toggled_def updateLink_datum comp_def)
  then show ?thesis by (simp add: sampleView_def sampleLink_def)
qed

lemma statedCategories_data:
  "statedCategories s d
     = insert (category d)
         (Some ` (\<Union>l \<in> set (map datum (v_links s)). set (neighbourCategories (v_nodes s) d l)))"
  by (simp add: statedCategories_def)

lemma openedView_stated:
  "statedCategories openedView (v_nodes openedView ! 2) = {Some ''work'', Some ''projects''}"
  unfolding statedCategories_data openedView_links
  unfolding openedView_nodes
  by (simp add: neighbourCategories_def categoryOf_def endId_def endNode_def sampleNode_def)

lemma openedView_named: "namedCategories (v_nodes openedView)"
  unfolding openedView_nodes by (simp add: namedCategories_def sampleNode_def)

lemma openedView_items:
  "2 < length (v_nodes openedView)" "node_type (v_nodes openedView ! 2) = Item"
  "\<not> hidden (v_nodes openedView ! 2)"
  "4 < length (v_nodes openedView)" "node_type (v_nodes openedView ! 4) = Item"
  "category (v_nodes openedView ! 4) = Some ''projects''"
  unfolding openedView_nodes by (simp_all add: sampleNode_def)

text \<open>
  In the opened sample view the item of \<open>work\<close> is shown and a reference link
  joins it to the item of \<open>projects\<close>: a click on it opens both categories.
\<close>

theorem item_click_multi_open_witness:
  "2 < length (v_nodes openedView) \<and> node_type (v_nodes openedView ! 2) = Item
   \<and> \<not> hidden (v_nodes openedView ! 2) \<and> \<not> wasDragged openedView
   \<and> namedCategories (v_nodes openedView)
   \<and> statedCategories openedView (v_nodes openedView ! 2) = {Some ''work'', Some ''projects''}
   \<and> (\<exists>cats. activeSubgraph (fst (handle Third fixedRandom (Click 2) openedView)) = Multi cats
          \<and> set cats = {Some ''work'', Some ''projects''})
   \<and> \<not> hidden (v_nodes (fst (handle Third fixedRandom (Click 2) openedView)) ! 4)"
proof -
  have w: "\<not> wasDragged openedView" using openedView_state(3) by simp
  then have w': "Third = Third \<longrightarrow> \<not> wasDragged openedView" by simp
  note t = item_click_multi_open[where i = 2 and s = openedView and rv = Third
      and rnd = fixedRandom, OF openedView_items(1,2,3) w' openedView_named,
      unfolded openedView_stated]
  from t have a: "\<exists>cats. activeSubgraph (fst (handle Third fixedRandom (Click 2) openedView)) = Multi cats
          \<and> set cats = {Some ''work'', Some ''projects''}"
    by (rule conjunct1)
  from t have "\<forall>j < length (v_nodes openedView).
           node_type (v_nodes (fst (handle Third fixedRandom (Click 2) openedView)) ! j)
             = node_type (v_nodes openedView ! j)
         \<and> category (v_nodes (fst (handle Third fixedRandom (Click 2) openedView)) ! j)
             = category (v_nodes openedView ! j)
         \<and> (node_type (v_nodes openedView ! j) = Item \<longrightarrow>
              (\<not> hidden (v_nodes (fst (handle Third fixedRandom (Click 2) openedView)) ! j))
              = (category (v_nodes openedView ! j) \<in> {Some ''work'', Some ''projects''}))"
    by (elim conjE)
  then have "(\<not> hidden (v_nodes (fst (handle Third fixedRandom (Click 2) openedView)) ! 4))
              = (category (v_nodes openedView ! 4) \<in> {Some ''work'', Some ''projects''})"
    using openedView_items(4,5) by blast
  then have b: "\<not> hidden (v_nodes (fst (handle Third fixedRandom (Click 2) openedView)) ! 4)"
    unfolding openedView_items(6) by blast
  from openedView_items(1,2,3) w openedView_named openedView_stated a b show ?thesis
    by (intro conjI)
qed

subsection \<open>Reframing\<close>










subsection \<open>Operations without a container\<close>

lemma nodeKey_forget: "nodeKey (forget n) = nodeKey n"
  by (simp add: nodeKey_def forget_def)




lemma hover_reveals:
  assumes "i < length (v_nodes s)" and "\<not> hidden (v_nodes s ! i)"
    and "le \<in> set (v_links s)" and "link_type (datum le) = Branch"
    and "endId (v_nodes s) (source (datum le)) = Some (node_id (v_nodes s ! i))"
    and "endNode (v_nodes s) (target (datum le)) = Some t"
    and "node_type t = Item" and "hidden t"
  shows "\<not> visibilityInvariant (fst (handle First rnd (MouseOver i) s))"
proof -
  define s' where "s' = mouseover_auto i s"
  have h: "fst (handle First rnd (MouseOver i) s) = s'"
    using assms(1) by (simp add: onNode_def hover_def s'_def)
  have n: "v_nodes s' = v_nodes s"
    by (simp add: s'_def mouseover_auto_def Let_def)
  have l: "v_links s' = map (\<lambda>le. if link_type (datum le) \<noteq> Reference
                  \<and> connected (v_nodes s) (v_nodes s ! i) (datum le)
                then le\<lparr>strokeOpacity := 7 / 10\<rparr> else le) (v_links s)"
    using assms(2) by (simp add: s'_def mouseover_auto_def Let_def)
  have c: "connected (v_nodes s) (v_nodes s ! i) (datum le)"
    using assms(5) by (simp add: connected_def)
  have "le\<lparr>strokeOpacity := 7 / 10\<rparr> \<in> set (v_links s')"
    unfolding l using assms(3,4) c by force
  moreover have "link_type (datum (le\<lparr>strokeOpacity := 7 / 10\<rparr>)) = Branch"
    "endNode (v_nodes s') (target (datum (le\<lparr>strokeOpacity := 7 / 10\<rparr>))) = Some t"
    "strokeOpacity (le\<lparr>strokeOpacity := 7 / 10\<rparr>) > 0"
    using assms(4,6) n by simp_all
  ultimately have "\<not> visibilityInvariant s'"
    unfolding visibilityInvariant_def using assms(7,8) by blast
  then show ?thesis unfolding h .
qed

subsection \<open>Hover in the first revision\<close>

lemma example_auto_keys:
  "map nodeKey (nodes (fst (buildGraphData_auto wholeWordTest fixedRandom None examplePage_auto)))
     = [(''center'', Center, None, False),
        (''cat-work'', Category, Some ''work'', False),
        (''work-acme-0'', Item, Some ''work'', True),
        (''work-initech-1'', Item, Some ''work'', True),
        (''work-globex-2'', Item, Some ''work'', True),
        (''cat-opensource'', Category, Some ''opensource'', False),
        (''opensource-kyo-0'', Item, Some ''opensource'', True),
        (''opensource-zio-1'', Item, Some ''opensource'', True)]"
proof -
  have "map nodeKey (nodes (plainGraph_auto wholeWordTest examplePage_auto))
     = [(''center'', Center, None, False),
        (''cat-work'', Category, Some ''work'', False),
        (''work-acme-0'', Item, Some ''work'', True),
        (''work-initech-1'', Item, Some ''work'', True),
        (''work-globex-2'', Item, Some ''work'', True),
        (''cat-opensource'', Category, Some ''opensource'', False),
        (''opensource-kyo-0'', Item, Some ''opensource'', True),
        (''opensource-zio-1'', Item, Some ''opensource'', True)]"
    by code_simp
  then show ?thesis
    unfolding buildGraphData_auto_plain(1)[of wholeWordTest fixedRandom None examplePage_auto,
        symmetric]
    by (simp add: comp_def nodeKey_forget)
qed

lemma example_auto_links:
  "links (fst (buildGraphData_auto wholeWordTest fixedRandom None examplePage_auto))
     = [\<lparr>source = Ident ''center'', target = Ident ''cat-work'', link_type = Spine\<rparr>,
        \<lparr>source = Ident ''cat-work'', target = Ident ''work-acme-0'', link_type = Branch\<rparr>,
        \<lparr>source = Ident ''cat-work'', target = Ident ''work-initech-1'', link_type = Branch\<rparr>,
        \<lparr>source = Ident ''cat-work'', target = Ident ''work-globex-2'', link_type = Branch\<rparr>,
        \<lparr>source = Ident ''center'', target = Ident ''cat-opensource'', link_type = Spine\<rparr>,
        \<lparr>source = Ident ''cat-opensource'', target = Ident ''opensource-kyo-0'',
          link_type = Branch\<rparr>,
        \<lparr>source = Ident ''cat-opensource'', target = Ident ''opensource-zio-1'',
          link_type = Branch\<rparr>,
        \<lparr>source = Ident ''work-acme-0'', target = Ident ''opensource-kyo-0'',
          link_type = Reference\<rparr>]"
  unfolding buildGraphData_auto_plain(2) by code_simp

lemma find_nodeKey:
  "map_option nodeKey (find (\<lambda>n. node_id n = x) ns) = find (\<lambda>k. fst k = x) (map nodeKey ns)"
  by (induction ns) (simp_all add: nodeKey_def)

lemma hover_reveals_example:
  "\<not> visibilityInvariant (run First (renderGraph (\<lambda>ns e. e) None
        (fst (buildGraphData_auto wholeWordTest fixedRandom None examplePage_auto)))
        [(fixedRandom, MouseOver 1)])"
proof -
  define g where "g = fst (buildGraphData_auto wholeWordTest fixedRandom None examplePage_auto)"
  define s where "s = renderGraph (\<lambda>ns e. e) None g"
  define l where "l = \<lparr>source = Ident ''cat-work'', target = Ident ''work-acme-0'',
    link_type = Branch\<rparr>"
  define ks where "ks = [(''center'', Center, None, False),
        (''cat-work'', Category, Some ''work'', False),
        (''work-acme-0'', Item, Some ''work'', True),
        (''work-initech-1'', Item, Some ''work'', True),
        (''work-globex-2'', Item, Some ''work'', True),
        (''cat-opensource'', Category, Some ''opensource'', False),
        (''opensource-kyo-0'', Item, Some ''opensource'', True),
        (''opensource-zio-1'', Item, Some ''opensource'', True)]"
  have keys: "map nodeKey (v_nodes s) = ks"
    unfolding s_def g_def ks_def using example_auto_keys by (simp add: renderGraph_def)
  have len: "length (v_nodes s) = 8"
    using arg_cong[OF keys, of length] by (simp add: ks_def)
  have "map nodeKey (v_nodes s) ! 1 = (''cat-work'', Category, Some ''work'', False)"
    unfolding keys by (simp add: ks_def)
  then have k1: "nodeKey (v_nodes s ! 1) = (''cat-work'', Category, Some ''work'', False)"
    using len by simp
  have i: "1 < length (v_nodes s)" using len by simp
  have h: "\<not> hidden (v_nodes s ! 1)" "node_id (v_nodes s ! 1) = ''cat-work''"
    using k1 by (simp_all add: nodeKey_def)
  have "l \<in> set (links g)" unfolding l_def g_def example_auto_links by simp
  then have "\<lparr>datum = l, strokeOpacity = 0\<rparr> \<in> set (v_links s)"
    unfolding s_def renderGraph_def by (force simp: l_def)
  moreover obtain t where t: "endNode (v_nodes s) (Ident ''work-acme-0'') = Some t"
    "nodeKey t = (''work-acme-0'', Item, Some ''work'', True)"
  proof -
    have "map_option nodeKey (endNode (v_nodes s) (Ident ''work-acme-0''))
        = map_option nodeKey (find (\<lambda>n. node_id n = ''work-acme-0'') (v_nodes s))"
      by (simp add: endNode_def)
    also have "\<dots> = find (\<lambda>k. fst k = ''work-acme-0'') (map nodeKey (v_nodes s))"
      by (rule find_nodeKey)
    finally have "map_option nodeKey (endNode (v_nodes s) (Ident ''work-acme-0''))
        = Some (''work-acme-0'', Item, Some ''work'', True)"
      unfolding keys by (simp add: ks_def)
    then show ?thesis using that by blast
  qed
  ultimately have "\<not> visibilityInvariant (fst (handle First fixedRandom (MouseOver 1) s))"
    using hover_reveals[OF i h(1), of "\<lparr>datum = l, strokeOpacity = 0\<rparr>" t fixedRandom] h(2)
    by (simp add: l_def endId_def nodeKey_def)
  then show ?thesis
    unfolding s_def g_def run_def by simp
qed

lemma example_keys:
  "map nodeKey (nodes (fst (buildGraphData fixedRandom None examplePage)))
     = [(''center'', Center, None, False),
        (''cat-work'', Category, Some ''work'', False),
        (''work-acme-0'', Item, Some ''work'', True),
        (''work-initech-1'', Item, Some ''work'', True),
        (''work-globex-2'', Item, Some ''work'', True),
        (''cat-projects'', Category, Some ''projects'', False),
        (''projects-kyo-0'', Item, Some ''projects'', True),
        (''projects-zio-1'', Item, Some ''projects'', True)]"
proof -
  have "map nodeKey (nodes (plainGraph examplePage))
     = [(''center'', Center, None, False),
        (''cat-work'', Category, Some ''work'', False),
        (''work-acme-0'', Item, Some ''work'', True),
        (''work-initech-1'', Item, Some ''work'', True),
        (''work-globex-2'', Item, Some ''work'', True),
        (''cat-projects'', Category, Some ''projects'', False),
        (''projects-kyo-0'', Item, Some ''projects'', True),
        (''projects-zio-1'', Item, Some ''projects'', True)]"
    by code_simp
  then show ?thesis
    unfolding buildGraphData_plain(1)[of fixedRandom None examplePage, symmetric]
    by (simp add: comp_def nodeKey_forget)
qed

lemma toggledNodes_keys:
  "map nodeKey (toggledNodes k ns)
     = map (\<lambda>p. (fst p, fst (snd p), fst (snd (snd p)),
                  if fst (snd p) = Item
                  then (if truthyKey k then fst (snd (snd p)) \<noteq> k else True)
                  else snd (snd (snd p))))
           (map nodeKey ns)"
  by (simp add: toggledNodes_def nodeKey_def)

lemma example_opened:
  "map nodeKey (v_nodes (run Third (renderGraph (\<lambda>ns e. e) None
        (fst (buildGraphData fixedRandom None examplePage))) [(fixedRandom, Click 1)]))
     = [(''center'', Center, None, False),
        (''cat-work'', Category, Some ''work'', False),
        (''work-acme-0'', Item, Some ''work'', False),
        (''work-initech-1'', Item, Some ''work'', False),
        (''work-globex-2'', Item, Some ''work'', False),
        (''cat-projects'', Category, Some ''projects'', False),
        (''projects-kyo-0'', Item, Some ''projects'', True),
        (''projects-zio-1'', Item, Some ''projects'', True)]"
proof -
  define s where "s = renderGraph (\<lambda>ns e. e) None (fst (buildGraphData fixedRandom None examplePage))"
  have keys: "map nodeKey (v_nodes s)
     = [(''center'', Center, None, False),
        (''cat-work'', Category, Some ''work'', False),
        (''work-acme-0'', Item, Some ''work'', True),
        (''work-initech-1'', Item, Some ''work'', True),
        (''work-globex-2'', Item, Some ''work'', True),
        (''cat-projects'', Category, Some ''projects'', False),
        (''projects-kyo-0'', Item, Some ''projects'', True),
        (''projects-zio-1'', Item, Some ''projects'', True)]"
    unfolding s_def using example_keys by (simp add: renderGraph_def)
  have len: "length (v_nodes s) = 8" using arg_cong[OF keys, of length] by simp
  have "map nodeKey (v_nodes s) ! 1 = (''cat-work'', Category, Some ''work'', False)"
    unfolding keys by simp
  then have k1: "nodeKey (v_nodes s ! 1) = (''cat-work'', Category, Some ''work'', False)"
    using len by simp
  have a: "activeSubgraph s = Closed" "\<not> wasDragged s" by (simp_all add: s_def renderGraph_def)
  have "handle Third fixedRandom (Click 1) s = toggleSubgraph (Some ''work'') s"
    using len k1 a removeFirst_prefix[of "''cat-''" "''work''"]
    by (simp add: onNode_def clicked_def click_def nodeClicked_def nodeKey_def)
  then obtain t where "fst (handle Third fixedRandom (Click 1) s)
      = (toggled (Some ''work'') s)\<lparr>zoomTransform := t\<rparr>"
    using toggleSubgraph_cases[of "Some ''work''" s] by auto
  then have "v_nodes (run Third s [(fixedRandom, Click 1)]) = toggledNodes (Some ''work'') (v_nodes s)"
    using a by (simp add: run_def toggled_def effectiveKey_def sameSubgraph_def del: handle.simps)
  then show ?thesis
    unfolding s_def[symmetric] by (simp add: toggledNodes_keys keys truthyKey_def)
qed

text \<open>
  Claim C2 holds in the third revision and fails in the first. In the third revision the
  visibility invariant holds in every state reached from a rendered graph, by any events.
  In the first revision it holds when the graph is rendered, and the hover handler breaks
  it: on the example page, moving the pointer over the category node \<open>cat-work\<close>
  gives the branch links to its hidden items the opacity 0.7.
\<close>

theorem visibility_by_revision:
  "visibilityInvariant (run Third (renderGraph bind cont (fst (buildGraphData rnd cont' pg))) evs)
   \<and> visibilityInvariant (renderGraph bind cont (fst (buildGraphData_auto rx rnd cont' pg)))
   \<and> \<not> visibilityInvariant (run First (renderGraph (\<lambda>ns e. e) None
        (fst (buildGraphData_auto wholeWordTest fixedRandom None examplePage_auto)))
        [(fixedRandom, MouseOver 1)])"
  using visibility_invariant_third_revision hover_reveals_example
    visibilityInvariant_rendered[OF built_allItemsHidden(2)]
  by blast

text \<open>
  After a click on the first category node of the example page its three items are shown,
  those of the other category are hidden.
\<close>

theorem visibility_by_revision_witness:
  "visibilityInvariant (run Third (renderGraph (\<lambda>ns e. e) None
        (fst (buildGraphData fixedRandom None examplePage))) [(fixedRandom, Click 1)])
   \<and> map nodeKey (v_nodes (run Third (renderGraph (\<lambda>ns e. e) None
        (fst (buildGraphData fixedRandom None examplePage))) [(fixedRandom, Click 1)]))
     = [(''center'', Center, None, False),
        (''cat-work'', Category, Some ''work'', False),
        (''work-acme-0'', Item, Some ''work'', False),
        (''work-initech-1'', Item, Some ''work'', False),
        (''work-globex-2'', Item, Some ''work'', False),
        (''cat-projects'', Category, Some ''projects'', False),
        (''projects-kyo-0'', Item, Some ''projects'', True),
        (''projects-zio-1'', Item, Some ''projects'', True)]"
  using visibility_by_revision[where bind = "\<lambda>ns e. e" and cont = None and rnd = fixedRandom
      and cont' = None and pg = examplePage and evs = "[(fixedRandom, Click 1)]"]
    example_opened
  by blast

subsection \<open>Category clicks on the example pages\<close>

lemma types_of_nodeKeys: "map node_type ns = map (\<lambda>k. fst (snd k)) (map nodeKey ns)"
  by (simp add: nodeKey_def)

lemma example_types:
  "map node_type (nodes (fst (buildGraphData fixedRandom None examplePage)))
     = [Center, Category, Item, Item, Item, Category, Item, Item]"
  unfolding types_of_nodeKeys example_keys by simp

lemma example_types_auto:
  "map node_type (nodes (fst (buildGraphData_auto wholeWordTest fixedRandom None examplePage_auto)))
     = [Center, Category, Item, Item, Item, Category, Item, Item]"
  unfolding types_of_nodeKeys example_auto_keys by simp

text \<open>
  In the opened sample view the category \<open>work\<close> is the open one and a click on
  its node closes it. On the example pages, a click on the first category node followed
  by a click on the second is a sequence without item clicks.
\<close>

theorem category_clicks_single_open_witness:
  "1 < length (v_nodes openedView) \<and> node_type (v_nodes openedView ! 1) = Category
   \<and> node_id (v_nodes openedView ! 1) = ''cat-'' @ ''work''
   \<and> activeSubgraph openedView = Single ''work''
   \<and> activeSubgraph (fst (handle Third fixedRandom (Click 1) openedView)) = Closed
   \<and> allItemsHidden (v_nodes (fst (handle Third fixedRandom (Click 1) openedView)))
   \<and> atMostOneCategory (run Third (renderGraph (\<lambda>ns e. e) None
          (fst (buildGraphData fixedRandom None examplePage)))
          [(fixedRandom, Click 1), (fixedRandom, Click 5)])
   \<and> atMostOneCategory (run First (renderGraph (\<lambda>ns e. e) None
          (fst (buildGraphData_auto wholeWordTest fixedRandom None examplePage_auto)))
          [(fixedRandom, Click 1), (fixedRandom, Click 5)])"
proof -
  have len: "length (map nodeKey (v_nodes openedView)) = 5"
    unfolding openedView_state(2) by simp
  have "map nodeKey (v_nodes openedView) ! 1 = (''cat-work'', Category, Some ''work'', False)"
    unfolding openedView_state(2) by simp
  then have k: "nodeKey (v_nodes openedView ! 1) = (''cat-work'', Category, Some ''work'', False)"
    using len by simp
  have h: "1 < length (v_nodes openedView)" "node_type (v_nodes openedView ! 1) = Category"
    "node_id (v_nodes openedView ! 1) = ''cat-'' @ ''work''"
    using len k by (simp_all add: nodeKey_def)
  have e: "list_all (\<lambda>re. notItemClick
        (map node_type (nodes (fst (buildGraphData fixedRandom None examplePage)))) (snd re))
        [(fixedRandom, Click 1), (fixedRandom, Click 5)]"
    unfolding example_types by (simp add: notItemClick_def)
  have ea: "list_all (\<lambda>re. notItemClick
        (map node_type (nodes (fst (buildGraphData_auto wholeWordTest fixedRandom None
            examplePage_auto)))) (snd re))
        [(fixedRandom, Click 1), (fixedRandom, Click 5)]"
    unfolding example_types_auto by (simp add: notItemClick_def)
  show ?thesis
    using h e ea openedView_state(1,3)
      category_clicks_single_open[where i = 1 and s = openedView and k = "''work''" and rv = Third
        and rnd = fixedRandom and rnd' = fixedRandom and cont' = None and pg = examplePage
        and evs = "[(fixedRandom, Click 1), (fixedRandom, Click 5)]" and bind = "\<lambda>ns e. e"
        and cont = None]
      category_clicks_single_open[where i = 1 and s = sampleView and k = "''work''" and rv = First
        and rnd = fixedRandom and rnd' = fixedRandom and cont' = None and pg = examplePage_auto
        and evs = "[(fixedRandom, Click 1), (fixedRandom, Click 5)]" and bind = "\<lambda>ns e. e"
        and cont = None and rx = wholeWordTest]
    by simp
qed

end
